theory Spec2Isabelle
  imports Main
begin

section \<open>Python values\<close>

text \<open>
  A Python \<open>str\<close> is a sequence of Unicode code points and \<open>len\<close> counts code points, so a
  string is modelled as the list of its code points. The source's literals are ASCII apart
  from the bullet (U+2022) and the em dash (U+2014); \<open>ustr\<close> embeds an ASCII literal.
\<close>

type_synonym pystr = "nat list"

definition ustr :: "string \<Rightarrow> pystr" where
  "ustr s = map of_char s"

definition bullet :: nat where
  "bullet = 8226"

definition emdash :: nat where
  "emdash = 8212"

text \<open>
  The values found in the decoded JSON of a player record: \<open>None\<close>, booleans, integers
  and strings. Numbers are modelled as integers.
\<close>

datatype pyval = PNone | PBool bool | PInt int | PStr pystr

text \<open>Truth value of a Python value, as tested by \<open>if v\<close>, \<open>v or w\<close> and \<open>not v\<close>.\<close>

fun py_truthy :: "pyval \<Rightarrow> bool" where
  "py_truthy PNone = False"
| "py_truthy (PBool b) = b"
| "py_truthy (PInt i) = (i \<noteq> 0)"
| "py_truthy (PStr s) = (s \<noteq> [])"

definition py_or :: "pyval \<Rightarrow> pyval \<Rightarrow> pyval" where
  "py_or a b = (if py_truthy a then a else b)"

text \<open>Decimal digits of a natural number, most significant first.\<close>

fun digits :: "nat \<Rightarrow> pystr" where
  "digits n = (if n < 10 then [48 + n] else digits (n div 10) @ [48 + n mod 10])"

declare digits.simps [simp del]

text \<open>\<open>str(v)\<close>, which is also what an f-string field \<open>{v}\<close> renders for these values.\<close>

fun py_str :: "pyval \<Rightarrow> pystr" where
  "py_str PNone = ustr ''None''"
| "py_str (PBool b) = (if b then ustr ''True'' else ustr ''False'')"
| "py_str (PInt i) = (if i < 0 then ustr ''-'' @ digits (nat (- i)) else digits (nat i))"
| "py_str (PStr s) = s"

text \<open>
  A player record is a dictionary from field names to values. \<open>p.get(k)\<close> yields \<open>None\<close>
  for a missing key, \<open>p.get(k, d)\<close> yields \<open>d\<close>.
\<close>

type_synonym player = "pystr \<rightharpoonup> pyval"

definition py_get :: "player \<Rightarrow> pystr \<Rightarrow> pyval" where
  "py_get p k = (case p k of None \<Rightarrow> PNone | Some v \<Rightarrow> v)"

definition py_get_default :: "player \<Rightarrow> pystr \<Rightarrow> pyval \<Rightarrow> pyval" where
  "py_get_default p k d = (case p k of None \<Rightarrow> d | Some v \<Rightarrow> v)"

text \<open>\<open>sep.join(xs)\<close>.\<close>

fun py_join :: "pystr \<Rightarrow> pystr list \<Rightarrow> pystr" where
  "py_join sep [] = []"
| "py_join sep [x] = x"
| "py_join sep (x # y # ys) = x @ sep @ py_join sep (y # ys)"

section \<open>Name selection: \<open>choose_player_name\<close>\<close>

definition name_keys :: "pystr list" where
  "name_keys = [ustr ''name'', ustr ''playerName'', ustr ''nick'', ustr ''username'',
                ustr ''displayName'', ustr ''persona'', ustr ''personaname'']"

text \<open>The \<open>for key in (...)\<close> loop: the first key whose value is truthy decides.\<close>

fun first_name :: "player \<Rightarrow> pystr list \<Rightarrow> pystr option" where
  "first_name p [] = None"
| "first_name p (key # keys) =
     (if py_truthy (py_get p key) then Some (py_str (py_get p key)) else first_name p keys)"

text \<open>\<open>str(p.get("steamId") or p.get("steam_id") or "")\<close>.\<close>

definition steamid_of :: "player \<Rightarrow> pystr" where
  "steamid_of p =
     py_str (py_or (py_or (py_get p (ustr ''steamId'')) (py_get p (ustr ''steam_id''))) (PStr []))"

definition choose_player_name :: "player \<Rightarrow> (pystr \<rightharpoonup> pystr) \<Rightarrow> pystr" where
  "choose_player_name p steam_map =
     (case first_name p name_keys of
        Some n \<Rightarrow> n
      | None \<Rightarrow>
          (let steamid = steamid_of p in
           if steamid \<noteq> [] then
             (case steam_map steamid of
                Some n \<Rightarrow> n
              | None \<Rightarrow> ustr ''steam:'' @ drop (length steamid - 8) steamid)
           else
             (case p (ustr ''userId'') of
                Some v \<Rightarrow> ustr ''#'' @ py_str v
              | None \<Rightarrow> ustr ''Unknown'')))"

section \<open>Line formatting: \<open>compact_player_line\<close>\<close>

definition team_map :: "pystr \<rightharpoonup> pystr" where
  "team_map = [ustr ''0'' \<mapsto> ustr ''Free For All'', ustr ''1'' \<mapsto> ustr ''Free For All'',
               ustr ''2'' \<mapsto> ustr ''Rebel'', ustr ''3'' \<mapsto> ustr ''Combine'']"

definition compact_player_line :: "player \<Rightarrow> pystr \<Rightarrow> pystr" where
  "compact_player_line p name =
     (let team = py_get_default p (ustr ''teamIdx'') (PStr (ustr ''n/a''));
          hp = py_get_default p (ustr ''health'') (PStr (ustr ''n/a''));
          armor = py_get_default p (ustr ''armor'') (PStr (ustr ''n/a''));
          kills = py_get_default p (ustr ''kills'') (PStr (ustr ''n/a''));
          deaths = py_get_default p (ustr ''deaths'') (PStr (ustr ''n/a''));
          ping = py_get_default p (ustr ''ping'') (PStr (ustr ''n/a''));
          weapon = py_or (py_get p (ustr ''weapon'')) (PStr (ustr ''none''));
          team' = (case team_map (py_str team) of Some label \<Rightarrow> PStr label | None \<Rightarrow> team)
      in ustr ''**'' @ name @ ustr ''** '' @ [emdash] @ ustr '' '' @ py_str team'
         @ ustr '' '' @ [emdash] @ ustr '' '' @ py_str hp @ ustr ''HP/'' @ py_str armor
         @ ustr ''AR '' @ [emdash] @ ustr '' '' @ py_str kills @ ustr ''K/'' @ py_str deaths
         @ ustr ''D '' @ [emdash] @ ustr '' '' @ py_str ping @ ustr ''ms '' @ [emdash]
         @ ustr '' '' @ py_str weapon)"

section \<open>Layout: \<open>make_one_big_embed\<close>\<close>

definition FIELD_VALUE_MAX :: nat where
  "FIELD_VALUE_MAX = 1024"

definition EMBED_TOTAL_MAX :: nat where
  "EMBED_TOTAL_MAX = 6000"

definition newline :: nat where
  "newline = 10"

definition backtick :: nat where
  "backtick = 96"

text \<open>
  One element of the fetched list. The source reads three things from it:
  \<open>entry.get("serverInfo", {}).get("name", "unnamed")\<close>, the same for \<open>"version"\<close>, and
  \<open>entry.get("players") or []\<close>. The record holds the name (a string) and the version when
  the object has them, and the player list (empty when missing or null).
\<close>

record entry =
  info_name :: "pystr option"
  info_version :: "pyval option"
  players :: "player list"

text \<open>
  The embed: its title, description, timestamp, fields (\<open>efields\<close>, each with its name
  \<open>fname\<close> and its value \<open>fvalue\<close>) and footer. The author name, the thumbnail and the
  colour are constants of the source and are left out.
\<close>

record field =
  fname :: pystr
  fvalue :: pystr

record embed =
  title :: pystr
  description :: pystr
  timestamp :: nat
  efields :: "field list"
  footer :: pystr

definition entry_name :: "entry \<Rightarrow> pystr" where
  "entry_name e = (case info_name e of None \<Rightarrow> ustr ''unnamed'' | Some n \<Rightarrow> n)"

definition entry_version :: "entry \<Rightarrow> pyval" where
  "entry_version e = (case info_version e of None \<Rightarrow> PStr (ustr ''unknown'') | Some v \<Rightarrow> v)"

text \<open>The text of one server's field: lines 112 to 125 of the source.\<close>

definition field_value :: "entry \<Rightarrow> (pystr \<rightharpoonup> pystr) \<Rightarrow> pystr" where
  "field_value e steam_map =
     (let version = entry_version e in
      if players e = [] then
        ustr ''Players: 0 '' @ [bullet] @ ustr '' version '' @ [backtick] @ py_str version
          @ [backtick]
      else
        (let lines =
               (ustr ''Players: '' @ digits (length (players e)) @ ustr '' '' @ [bullet]
                  @ ustr '' version '' @ [backtick] @ py_str version @ [backtick])
               # map (\<lambda>p. compact_player_line p (choose_player_name p steam_map)) (players e);
             joined = py_join [newline] lines
         in if length joined > FIELD_VALUE_MAX
            then take (FIELD_VALUE_MAX - 30) joined @ [newline] @ ustr ''... (truncated)''
            else joined))"

text \<open>The state of the packing loop: lines 104 to 132.\<close>

record pack_state =
  total_chars :: nat
  servers_truncated :: nat
  flds :: "field list"

fun pack_loop :: "(pystr \<rightharpoonup> pystr) \<Rightarrow> entry list \<Rightarrow> pack_state \<Rightarrow> pack_state" where
  "pack_loop steam_map [] s = s"
| "pack_loop steam_map (e # rest) s =
     (let name = entry_name e; fv = field_value e steam_map in
      if total_chars s + length name + length fv + 10 > EMBED_TOTAL_MAX then
        pack_loop steam_map rest (s\<lparr>servers_truncated := servers_truncated s + 1\<rparr>)
      else
        pack_loop steam_map rest
          (s\<lparr>flds := flds s @ [\<lparr>fname = take 256 name, fvalue = fv\<rparr>],
             total_chars := total_chars s + length name + length fv\<rparr>))"

definition embed_title :: pystr where
  "embed_title = ustr ''SF Servers''"

definition embed_description :: pystr where
  "embed_description = ustr ''Live stats for SF HL2DM servers.''"

definition notice_field :: "nat \<Rightarrow> field" where
  "notice_field n =
     \<lparr>fname = ustr ''Notice'',
      fvalue = ustr ''Truncated: '' @ digits n @ ustr '' server(s) omitted.''\<rparr>"

definition pack_init :: pack_state where
  "pack_init =
     \<lparr>total_chars = length embed_title + length embed_description,
      servers_truncated = 0, flds = []\<rparr>"

text \<open>\<open>now\<close> is the clock reading \<open>discord.utils.utcnow()\<close> returns.\<close>

definition make_one_big_embed :: "nat \<Rightarrow> entry list \<Rightarrow> (pystr \<rightharpoonup> pystr) \<Rightarrow> embed" where
  "make_one_big_embed now all_data steam_map =
     (let s = pack_loop steam_map all_data pack_init;
          fs = (if servers_truncated s \<noteq> 0
                then flds s @ [notice_field (servers_truncated s)] else flds s)
      in \<lparr>title = embed_title, description = embed_description, timestamp = now,
          efields = fs,
          footer = ustr ''Server list '' @ [bullet] @ ustr '' '' @ digits (length all_data)
                     @ ustr '' total (showing '' @ digits (length fs) @ ustr '').''\<rparr>)"

section \<open>The two network calls\<close>

text \<open>
  The outcome of one HTTP GET: an exception before any of the body is used (network
  error, timeout, a body \<open>json()\<close> cannot read, or one that is not an object holding a list
  of players), or a status with the decoded body.
\<close>

datatype 'a http = Failed | Response nat 'a

definition fetch_server_data :: "entry list http \<Rightarrow> entry list" where
  "fetch_server_data r =
     (case r of
        Failed \<Rightarrow> []
      | Response status body \<Rightarrow> if status = 200 then body else [])"

text \<open>
  One element of \<open>response.players\<close> in the lookup service's answer, with the two fields the
  source reads.
\<close>

record summary =
  steamid :: "pystr option"
  personaname :: "pystr option"

text \<open>
  An element of the list of players is an object, or something the loop body raises on
  (\<open>p.get\<close> of a value that is not an object, a \<open>steamid\<close> that cannot be a key).
\<close>

datatype item = Obj summary | Bad

text \<open>
  The loop \<open>for p in players\<close>, lines 57 to 61. It runs inside the \<open>try\<close> and stores into
  the mapping in place: when the body raises, the \<open>except\<close> clause goes on to the next
  batch, the names stored so far stay and the rest of the list is not read.
\<close>

fun merge_players :: "item list \<Rightarrow> (pystr \<rightharpoonup> pystr) \<Rightarrow> (pystr \<rightharpoonup> pystr)" where
  "merge_players [] m = m"
| "merge_players (Bad # ps) m = m"
| "merge_players (Obj p # ps) m =
     merge_players ps
       (case (steamid p, personaname p) of
          (Some sid, Some name) \<Rightarrow> if sid \<noteq> [] \<and> name \<noteq> [] then m(sid \<mapsto> name) else m
        | _ \<Rightarrow> m)"

definition CHUNK :: nat where
  "CHUNK = 100"

text \<open>
  The resolver's state: the mapping built so far and the requests issued so far, each
  request being the batch of identifiers it asks about.
\<close>

record resolve_state =
  mapping :: "pystr \<rightharpoonup> pystr"
  requests :: "pystr list list"

text \<open>
  The body of the loop, lines 46 to 63, for one batch: the request is issued; an exception
  of the request or a status other than 200 leaves the mapping as it is (\<open>continue\<close>), the
  players of a status-200 answer are merged, up to the first element the merge raises on.
  The service is the answer the network gives to a request.
\<close>

definition lookup_batch ::
  "(pystr list \<Rightarrow> item list http) \<Rightarrow> pystr list \<Rightarrow> resolve_state \<Rightarrow> resolve_state" where
  "lookup_batch service chunk s =
     (let s1 = s\<lparr>requests := requests s @ [chunk]\<rparr> in
      case service chunk of
        Failed \<Rightarrow> s1
      | Response status body \<Rightarrow>
          if status \<noteq> 200 then s1
          else s1\<lparr>mapping := merge_players body (mapping s1)\<rparr>)"

text \<open>The loop \<open>for i in range(0, len(ids), CHUNK)\<close> with \<open>chunk = ids[i:i + CHUNK]\<close>.\<close>

function resolve_loop ::
  "(pystr list \<Rightarrow> item list http) \<Rightarrow> pystr list \<Rightarrow> nat \<Rightarrow> resolve_state \<Rightarrow> resolve_state" where
  "resolve_loop service ids i s =
     (if i < length ids
      then resolve_loop service ids (i + CHUNK) (lookup_batch service (take CHUNK (drop i ids)) s)
      else s)"
  by pat_completeness auto
termination
  by (relation "measure (\<lambda>(service, ids, i, s). length ids - i)") (auto simp: CHUNK_def)

declare resolve_loop.simps [simp del]

definition resolve_init :: resolve_state where
  "resolve_init = \<lparr>mapping = Map.empty, requests = []\<rparr>"

text \<open>
  A Python set of strings is modelled by the list of its elements, each once. Python
  iterates a set in the order of the slots of its hash table; \<open>slot\<close> is the place the
  runtime gives each element, and \<open>list(s)\<close> is the elements sorted by their slot (a stable
  sort, so that every \<open>slot\<close> gives a listing and every listing comes from some \<open>slot\<close>).
\<close>

definition py_list :: "(pystr \<Rightarrow> nat) \<Rightarrow> pystr list \<Rightarrow> pystr list" where
  "py_list slot s = sort_key slot s"

text \<open>\<open>STEAM_API_KEY\<close> is \<open>None\<close> or a string.\<close>

definition resolve_steam_names ::
  "pystr option \<Rightarrow> (pystr list \<Rightarrow> item list http) \<Rightarrow> (pystr \<Rightarrow> nat) \<Rightarrow> pystr list
     \<Rightarrow> resolve_state" where
  "resolve_steam_names STEAM_API_KEY service slot steam_ids =
     (if STEAM_API_KEY = None \<or> STEAM_API_KEY = Some [] \<or> steam_ids = [] then resolve_init
      else (let ids = py_list slot steam_ids in resolve_loop service ids 0 resolve_init))"

section \<open>The command: \<open>servers\<close>\<close>

text \<open>
  The set comprehension of lines 153 to 157: the set built from the values the
  comprehension yields, a value that is already there not being added again.
\<close>

definition steam_ids :: "entry list \<Rightarrow> pystr list" where
  "steam_ids data =
     remdups [py_str (py_or (py_get p (ustr ''steamId'')) (py_get p (ustr ''steam_id''))).
            e \<leftarrow> data, p \<leftarrow> players e,
            py_truthy (py_or (py_get p (ustr ''steamId'')) (py_get p (ustr ''steam_id'')))]"

datatype reply = Message pystr | Document embed

definition approx_len :: "embed \<Rightarrow> nat" where
  "approx_len e =
     length (title e) + length (description e)
       + sum_list (map (\<lambda>f. length (fname f) + length (fvalue f)) (efields e))"

definition no_servers_message :: pystr where
  "no_servers_message = ustr ''No servers available or failed to fetch data.''"

definition too_large_message :: pystr where
  "too_large_message = ustr ''Result too large for a single embed.''"

text \<open>Lines 161 to 169: what is sent once the data and the name map are there.\<close>

definition send_embed :: "nat \<Rightarrow> entry list \<Rightarrow> (pystr \<rightharpoonup> pystr) \<Rightarrow> reply" where
  "send_embed now data steam_map =
     (let e = make_one_big_embed now data steam_map in
      if approx_len e > EMBED_TOTAL_MAX then Message too_large_message else Document e)"

text \<open>The whole command. It returns the reply and the lookup requests it issued.\<close>

definition servers ::
  "nat \<Rightarrow> entry list http \<Rightarrow> pystr option \<Rightarrow> (pystr list \<Rightarrow> item list http)
     \<Rightarrow> (pystr \<Rightarrow> nat) \<Rightarrow> reply \<times> pystr list list" where
  "servers now api STEAM_API_KEY service slot =
     (let data = fetch_server_data api in
      if data = [] then (Message no_servers_message, [])
      else
        (let r = (if steam_ids data \<noteq> []
                  then resolve_steam_names STEAM_API_KEY service slot (steam_ids data)
                  else resolve_init)
         in (send_embed now data (mapping r), requests r)))"

section \<open>Notions used to state the properties\<close>

text \<open>
  The specification's partition of the identifiers into batches of a fixed size, by its
  words: take the first \<open>n\<close>, then partition the rest. It is compared with the requests the
  source's loop issues.
\<close>

function batches :: "nat \<Rightarrow> 'a list \<Rightarrow> 'a list list" where
  "batches n xs = (if n = 0 \<or> xs = [] then [] else take n xs # batches n (drop n xs))"
  by pat_completeness auto
termination
  by (relation "measure (\<lambda>(n, xs). length xs)") auto

declare batches.simps [simp del]

text \<open>
  An element of an answer gives a name to \<open>sid\<close> when it passes the test \<open>if sid and name\<close>;
  the elements the merge reads are those before the first one it raises on; the
  identifiers a request gets names for are those of a status-200 answer.
\<close>

fun before_raise :: "item list \<Rightarrow> summary list" where
  "before_raise [] = []"
| "before_raise (Bad # ps) = []"
| "before_raise (Obj p # ps) = p # before_raise ps"

definition valid_summary :: "summary \<Rightarrow> pystr \<Rightarrow> bool" where
  "valid_summary p sid \<longleftrightarrow>
     steamid p = Some sid \<and> sid \<noteq> []
       \<and> (case personaname p of None \<Rightarrow> False | Some n \<Rightarrow> n \<noteq> [])"

definition answered :: "(pystr list \<Rightarrow> item list http) \<Rightarrow> pystr list \<Rightarrow> pystr set" where
  "answered service chunk =
     (case service chunk of
        Failed \<Rightarrow> {}
      | Response status body \<Rightarrow>
          if status = 200 then {sid. \<exists>p\<in>set (before_raise body). valid_summary p sid} else {})"

text \<open>
  What one batch contributes to the mapping: the names merged from a status-200 answer,
  nothing otherwise.
\<close>

definition answer_map :: "(pystr list \<Rightarrow> item list http) \<Rightarrow> pystr list \<Rightarrow> (pystr \<rightharpoonup> pystr)" where
  "answer_map service chunk =
     (case service chunk of
        Failed \<Rightarrow> Map.empty
      | Response status body \<Rightarrow>
          if status = 200 then merge_players body Map.empty else Map.empty)"

text \<open>
  A batch fails before the merge when the request raises or its status is not 200; it
  fails in the merge when the merge of its status-200 answer raises.
\<close>

definition batch_failed :: "(pystr list \<Rightarrow> item list http) \<Rightarrow> pystr list \<Rightarrow> bool" where
  "batch_failed service chunk =
     (case service chunk of Failed \<Rightarrow> True | Response status body \<Rightarrow> status \<noteq> 200)"

definition batch_raises :: "(pystr list \<Rightarrow> item list http) \<Rightarrow> pystr list \<Rightarrow> bool" where
  "batch_raises service chunk =
     (case service chunk of
        Failed \<Rightarrow> False
      | Response status body \<Rightarrow> status = 200 \<and> Bad \<in> set body)"

text \<open>
  An example for the resolver: a slot function under which a set is listed in the order
  of its model, 150 one-character identifiers, and a service that answers only the
  request that asks about the identifier \<open>[100]\<close>.
\<close>

definition example_slot :: "pystr \<Rightarrow> nat" where
  "example_slot x = 0"

definition example_ids :: "pystr list" where
  "example_ids = map (\<lambda>n. [n]) [0..<150]"

definition example_service :: "pystr list \<Rightarrow> item list http" where
  "example_service chunk =
     (if [100] \<in> set chunk
      then Response 200 [Obj \<lparr>steamid = Some [100], personaname = Some (ustr ''alice'')\<rparr>]
      else Failed)"

text \<open>
  A service whose answer names the identifier \<open>a\<close> and then holds an element the merge
  raises on.
\<close>

definition example_partial_service :: "pystr list \<Rightarrow> item list http" where
  "example_partial_service chunk =
     Response 200 [Obj \<lparr>steamid = Some (ustr ''a''), personaname = Some (ustr ''alice'')\<rparr>, Bad]"

text \<open>An example for the command: one server whose three players carry the same identifier.\<close>

definition example_shared_id :: "entry list" where
  "example_shared_id =
     [\<lparr>info_name = Some (ustr ''s''), info_version = None,
       players = [[ustr ''steamId'' \<mapsto> PStr (ustr ''76561198000000001'')],
                  [ustr ''steam_id'' \<mapsto> PStr (ustr ''76561198000000001'')],
                  [ustr ''steamId'' \<mapsto> PInt 76561198000000001,
                   ustr ''name'' \<mapsto> PStr (ustr ''bob'')]]\<rparr>]"

text \<open>
  The specification's global packing, by its words: the blocks (header and body) are
  taken in order with a running total; a block whose header length plus body length plus
  10 would take the total over 6000 is skipped and counted, and the pass goes on; the
  result is the included blocks and the count of omitted ones.
\<close>

fun pack_spec :: "nat \<Rightarrow> (pystr \<times> pystr) list \<Rightarrow> (pystr \<times> pystr) list \<times> nat" where
  "pack_spec running [] = ([], 0)"
| "pack_spec running ((header, body) # rest) =
     (if running + length header + length body + 10 > 6000
      then (fst (pack_spec running rest), snd (pack_spec running rest) + 1)
      else ((header, body) # fst (pack_spec (running + length header + length body) rest),
            snd (pack_spec (running + length header + length body) rest)))"

definition blocks :: "(pystr \<rightharpoonup> pystr) \<Rightarrow> entry list \<Rightarrow> (pystr \<times> pystr) list" where
  "blocks steam_map data = map (\<lambda>e. (entry_name e, field_value e steam_map)) data"

text \<open>
  The size of a list of fields, and the size of a document: title length plus description
  length plus the field name lengths plus the field value lengths.
\<close>

definition fields_size :: "field list \<Rightarrow> nat" where
  "fields_size fs = sum_list (map (\<lambda>f. length (fname f) + length (fvalue f)) fs)"

definition doc_size :: "embed \<Rightarrow> nat" where
  "doc_size e =
     length (title e) + length (description e)
       + sum_list (map (length \<circ> fname) (efields e)) + sum_list (map (length \<circ> fvalue) (efields e))"

text \<open>
  Examples for the layout. A server without players whose name has 165 characters and
  whose version has 1001, so that its field text has 1024 characters; six such servers. A
  server without players whose version has 1002 characters. A server whose name has 300
  characters, and one whose name has 6000.
\<close>

definition example_server :: entry where
  "example_server =
     \<lparr>info_name = Some (replicate 165 97), info_version = Some (PStr (replicate 1001 98)),
      players = []\<rparr>"

definition example_overflow :: "entry list" where
  "example_overflow =
     [example_server, example_server, example_server, example_server, example_server,
      example_server]"

definition example_long_version :: entry where
  "example_long_version =
     \<lparr>info_name = Some (ustr ''s''), info_version = Some (PStr (replicate 1002 97)),
      players = []\<rparr>"

definition example_huge_name :: entry where
  "example_huge_name =
     \<lparr>info_name = Some (replicate 6000 97), info_version = None, players = []\<rparr>"

definition example_long_name :: entry where
  "example_long_name =
     \<lparr>info_name = Some (replicate 300 97), info_version = None, players = []\<rparr>"

section \<open>Strings and values\<close>

lemma length_ustr [simp]: "length (ustr s) = length s"
  by (simp add: ustr_def)

lemma ustr_eq_iff [simp]: "ustr a = ustr b \<longleftrightarrow> a = b"
  by (simp add: ustr_def inj_map_eq_map inj_of_char)

lemma ustr_Nil_iff [simp]: "ustr s = [] \<longleftrightarrow> s = []"
  by (simp add: ustr_def)

lemma digits_nonempty [simp]: "digits n \<noteq> []"
  by (subst digits.simps) simp

lemma py_str_truthy_nonempty: "py_truthy v \<Longrightarrow> py_str v \<noteq> []"
  by (cases v) auto

lemma first_name_nonempty: "first_name p ks = Some n \<Longrightarrow> n \<noteq> []"
  by (induction ks) (auto split: if_splits simp: py_str_truthy_nonempty)

lemma first_name_None_iff:
  "first_name p ks = None \<longleftrightarrow> (\<forall>k\<in>set ks. \<not> py_truthy (py_get p k))"
  by (induction ks) auto

lemma first_name_at:
  "i < length ks \<Longrightarrow> py_truthy (py_get p (ks ! i)) \<Longrightarrow>
   \<forall>j<i. \<not> py_truthy (py_get p (ks ! j)) \<Longrightarrow>
   first_name p ks = Some (py_str (py_get p (ks ! i)))"
proof (induction ks arbitrary: i)
  case Nil
  then show ?case by simp
next
  case (Cons k ks)
  show ?case
  proof (cases i)
    case 0
    with Cons.prems show ?thesis by simp
  next
    case (Suc i')
    from Cons.prems Suc have k: "\<not> py_truthy (py_get p k)" by auto
    have "first_name p ks = Some (py_str (py_get p (ks ! i')))"
    proof (rule Cons.IH)
      show "i' < length ks" using Cons.prems Suc by simp
      show "py_truthy (py_get p (ks ! i'))" using Cons.prems Suc by simp
      show "\<forall>j<i'. \<not> py_truthy (py_get p (ks ! j))"
      proof (intro allI impI)
        fix j assume "j < i'"
        then have "Suc j < i" using Suc by simp
        with Cons.prems(3) have "\<not> py_truthy (py_get p ((k # ks) ! Suc j))" by blast
        then show "\<not> py_truthy (py_get p (ks ! j))" by simp
      qed
    qed
    with k Suc show ?thesis by simp
  qed
qed

lemma steamid_of_cases:
  "steamid_of p =
     (if py_truthy (py_get p (ustr ''steamId'')) then py_str (py_get p (ustr ''steamId''))
      else if py_truthy (py_get p (ustr ''steam_id'')) then py_str (py_get p (ustr ''steam_id''))
      else [])"
  by (simp add: steamid_of_def py_or_def)

section \<open>The precedence of names\<close>

text \<open>
  Claim C4. The display name follows a fixed precedence, first match wins: the first of the
  seven local name fields whose value is truthy (for a string: present and non-empty), as
  text; otherwise, when the record carries an identifier, the name the map gives it, or
  \<open>steam:\<close> and the last eight characters of the identifier when the map has none; otherwise
  \<open>#\<close> and the in-game id when the key \<open>userId\<close> is present; otherwise \<open>Unknown\<close>.
\<close>

theorem choose_player_name_precedence:
  "(i < length name_keys \<and> py_truthy (py_get p (name_keys ! i))
      \<and> (\<forall>j<i. \<not> py_truthy (py_get p (name_keys ! j)))
      \<longrightarrow> choose_player_name p steam_map = py_str (py_get p (name_keys ! i)))
   \<and> ((\<forall>k\<in>set name_keys. \<not> py_truthy (py_get p k)) \<and> steamid_of p \<noteq> []
      \<and> steam_map (steamid_of p) = Some n
      \<longrightarrow> choose_player_name p steam_map = n)
   \<and> ((\<forall>k\<in>set name_keys. \<not> py_truthy (py_get p k)) \<and> steamid_of p \<noteq> []
      \<and> steam_map (steamid_of p) = None
      \<longrightarrow> choose_player_name p steam_map
            = ustr ''steam:'' @ drop (length (steamid_of p) - 8) (steamid_of p))
   \<and> ((\<forall>k\<in>set name_keys. \<not> py_truthy (py_get p k)) \<and> steamid_of p = []
      \<and> p (ustr ''userId'') = Some v
      \<longrightarrow> choose_player_name p steam_map = ustr ''#'' @ py_str v)
   \<and> ((\<forall>k\<in>set name_keys. \<not> py_truthy (py_get p k)) \<and> steamid_of p = []
      \<and> p (ustr ''userId'') = None
      \<longrightarrow> choose_player_name p steam_map = ustr ''Unknown'')"
proof -
  have none: "(\<forall>k\<in>set name_keys. \<not> py_truthy (py_get p k)) \<Longrightarrow> first_name p name_keys = None"
    by (simp add: first_name_None_iff)
  show ?thesis
    by (auto simp: choose_player_name_def first_name_at none Let_def)
qed

theorem choose_player_name_precedence_witness:
  "choose_player_name [ustr ''nick'' \<mapsto> PStr (ustr ''bob''), ustr ''name'' \<mapsto> PStr [],
       ustr ''steamId'' \<mapsto> PStr (ustr ''76561198000000001'')]
       [ustr ''76561198000000001'' \<mapsto> ustr ''alice''] = ustr ''bob''
   \<and> choose_player_name [ustr ''steamId'' \<mapsto> PStr (ustr ''76561198000000001'')]
       [ustr ''76561198000000001'' \<mapsto> ustr ''alice''] = ustr ''alice''
   \<and> choose_player_name [ustr ''steam_id'' \<mapsto> PStr (ustr ''76561198000000001'')]
       Map.empty = ustr ''steam:00000001''
   \<and> choose_player_name [ustr ''userId'' \<mapsto> PInt 7] Map.empty = ustr ''#7''
   \<and> choose_player_name Map.empty Map.empty = ustr ''Unknown''"
proof -
  let ?sid = "ustr ''76561198000000001''"
  let ?p1 = "[ustr ''nick'' \<mapsto> PStr (ustr ''bob''), ustr ''name'' \<mapsto> PStr [],
       ustr ''steamId'' \<mapsto> PStr ?sid]"
  let ?m = "[?sid \<mapsto> ustr ''alice'']"
  have 1: "choose_player_name ?p1 ?m = ustr ''bob''"
    using choose_player_name_precedence [of 2 ?p1 ?m]
    by (simp add: name_keys_def py_get_def less_Suc_eq numeral_2_eq_2)
  have 2: "choose_player_name [ustr ''steamId'' \<mapsto> PStr ?sid] ?m = ustr ''alice''"
    using choose_player_name_precedence [of _ "[ustr ''steamId'' \<mapsto> PStr ?sid]" ?m "ustr ''alice''"]
    by (simp add: name_keys_def py_get_def steamid_of_cases)
  have 3: "choose_player_name [ustr ''steam_id'' \<mapsto> PStr ?sid] Map.empty = ustr ''steam:00000001''"
    using choose_player_name_precedence [of _ "[ustr ''steam_id'' \<mapsto> PStr ?sid]" Map.empty]
    by (simp add: name_keys_def py_get_def steamid_of_cases) (simp add: ustr_def)
  have 4: "choose_player_name [ustr ''userId'' \<mapsto> PInt 7] Map.empty = ustr ''#7''"
    using choose_player_name_precedence [of _ "[ustr ''userId'' \<mapsto> PInt 7]" Map.empty _ "PInt 7"]
    by (simp add: name_keys_def py_get_def steamid_of_cases) (simp add: ustr_def digits.simps)
  have 5: "choose_player_name Map.empty Map.empty = ustr ''Unknown''"
    using choose_player_name_precedence [of _ Map.empty Map.empty]
    by (simp add: name_keys_def py_get_def steamid_of_cases)
  from 1 2 3 4 5 show ?thesis by blast
qed

section \<open>Batches\<close>

lemma batches_Nil [simp]: "batches n [] = []"
  by (simp add: batches.simps)

lemma batches_step: "0 < n \<Longrightarrow> xs \<noteq> [] \<Longrightarrow> batches n xs = take n xs # batches n (drop n xs)"
  by (subst batches.simps) simp

lemma concat_batches: "0 < n \<Longrightarrow> concat (batches n xs) = xs"
proof (induction n xs rule: batches.induct)
  case (1 n xs)
  show ?case
  proof (cases "xs = []")
    case True
    then show ?thesis by simp
  next
    case False
    with "1.prems" have "concat (batches n (drop n xs)) = drop n xs"
      using "1.IH" by simp
    with False "1.prems" show ?thesis by (simp add: batches_step)
  qed
qed

lemma batches_bounds: "c \<in> set (batches n xs) \<Longrightarrow> c \<noteq> [] \<and> length c \<le> n"
proof (induction n xs rule: batches.induct)
  case (1 n xs)
  show ?case
  proof (cases "n = 0 \<or> xs = []")
    case True
    with "1.prems" show ?thesis by (auto simp: batches.simps)
  next
    case False
    then have "batches n xs = take n xs # batches n (drop n xs)" by (simp add: batches_step)
    with "1.prems" have "c = take n xs \<or> c \<in> set (batches n (drop n xs))" by simp
    then show ?thesis
    proof
      assume "c = take n xs"
      with False show ?thesis by simp
    next
      assume "c \<in> set (batches n (drop n xs))"
      with "1.IH" False show ?thesis by simp
    qed
  qed
qed

lemma batches_eq_Nil_iff: "batches n xs = [] \<longleftrightarrow> n = 0 \<or> xs = []"
  by (subst batches.simps) simp

lemma batches_full: "c \<in> set (butlast (batches n xs)) \<Longrightarrow> length c = n"
proof (induction n xs rule: batches.induct)
  case (1 n xs)
  show ?case
  proof (cases "n = 0 \<or> xs = []")
    case True
    with "1.prems" show ?thesis by (auto simp: batches.simps)
  next
    case False
    then have step: "batches n xs = take n xs # batches n (drop n xs)"
      by (simp add: batches_step)
    show ?thesis
    proof (cases "batches n (drop n xs) = []")
      case True
      with "1.prems" step show ?thesis by simp
    next
      case rest: False
      then have "drop n xs \<noteq> []" by (auto simp: batches_eq_Nil_iff)
      then have full: "length (take n xs) = n" by simp
      from "1.prems" step rest
      have "c = take n xs \<or> c \<in> set (butlast (batches n (drop n xs)))" by simp
      then show ?thesis
      proof
        assume "c = take n xs"
        with full show ?thesis by simp
      next
        assume "c \<in> set (butlast (batches n (drop n xs)))"
        with "1.IH" False show ?thesis by simp
      qed
    qed
  qed
qed

lemma once_in_concat:
  "distinct (concat xs) \<Longrightarrow> x \<in> set (concat xs) \<Longrightarrow> length (filter (\<lambda>c. x \<in> set c) xs) = 1"
proof (induction xs)
  case Nil
  then show ?case by simp
next
  case (Cons c xs)
  show ?case
  proof (cases "x \<in> set c")
    case True
    with Cons.prems(1) have "\<forall>c'\<in>set xs. x \<notin> set c'" by auto
    then have "filter (\<lambda>c. x \<in> set c) xs = []" by (simp add: filter_empty_conv)
    with True show ?thesis by simp
  next
    case False
    with Cons show ?thesis by simp
  qed
qed

lemma never_in_concat:
  "x \<notin> set (concat xs) \<Longrightarrow> length (filter (\<lambda>c. x \<in> set c) xs) = 0"
  by (induction xs) auto

section \<open>The resolver\<close>

lemma merge_players_nonempty:
  "[] \<notin> ran m \<Longrightarrow> [] \<notin> ran (merge_players ps m)"
proof (induction ps m rule: merge_players.induct)
  case (1 m)
  then show ?case by simp
next
  case (2 ps m)
  then show ?case by simp
next
  case (3 p ps m)
  have "[] \<notin> ran (case (steamid p, personaname p) of
               (Some sid, Some name) \<Rightarrow> if sid \<noteq> [] \<and> name \<noteq> [] then m(sid \<mapsto> name) else m
             | _ \<Rightarrow> m)"
    using "3.prems" by (auto simp: ran_def split: option.splits if_splits)
  then show ?case by (simp add: "3.IH")
qed

lemma dom_merge_players:
  "dom (merge_players ps m) = dom m \<union> {sid. \<exists>p\<in>set (before_raise ps). valid_summary p sid}"
proof (induction ps arbitrary: m)
  case Nil
  then show ?case by simp
next
  case (Cons x ps)
  show ?case
  proof (cases x)
    case Bad
    then show ?thesis by simp
  next
    case (Obj p)
    then show ?thesis
      by (cases "steamid p"; cases "personaname p")
         (auto simp: Cons.IH valid_summary_def split: option.splits)
  qed
qed

lemma merge_players_raise:
  "merge_players (map Obj ps @ Bad # rest) m = merge_players (map Obj ps) m"
  by (induction ps arbitrary: m) simp_all

lemma requests_lookup_batch [simp]:
  "requests (lookup_batch service c s) = requests s @ [c]"
  by (simp add: lookup_batch_def Let_def split: http.splits)

lemma dom_lookup_batch:
  "dom (mapping (lookup_batch service c s)) = dom (mapping s) \<union> answered service c"
  by (simp add: lookup_batch_def Let_def answered_def dom_merge_players split: http.splits)

lemma lookup_batch_nonempty:
  "[] \<notin> ran (mapping s) \<Longrightarrow> [] \<notin> ran (mapping (lookup_batch service c s))"
  by (simp add: lookup_batch_def Let_def merge_players_nonempty split: http.splits)

lemma resolve_loop_step:
  "i < length ids \<Longrightarrow>
   resolve_loop service ids i s
     = resolve_loop service ids (i + CHUNK) (lookup_batch service (take CHUNK (drop i ids)) s)"
  by (subst resolve_loop.simps) simp

lemma resolve_loop_done: "\<not> i < length ids \<Longrightarrow> resolve_loop service ids i s = s"
  by (subst resolve_loop.simps) simp

lemma batches_drop_step:
  "i < length ids \<Longrightarrow>
   batches CHUNK (drop i ids) = take CHUNK (drop i ids) # batches CHUNK (drop (i + CHUNK) ids)"
  by (simp add: batches_step CHUNK_def add.commute)

lemma resolve_loop_nonempty:
  "[] \<notin> ran (mapping s) \<Longrightarrow> [] \<notin> ran (mapping (resolve_loop service ids i s))"
proof (induction service ids i s rule: resolve_loop.induct)
  case (1 service ids i s)
  show ?case
  proof (cases "i < length ids")
    case False
    with "1.prems" show ?thesis by (simp add: resolve_loop_done)
  next
    case True
    with "1.IH" [OF True] "1.prems" show ?thesis
      by (simp add: resolve_loop_step lookup_batch_nonempty)
  qed
qed

lemma requests_resolve_loop:
  "requests (resolve_loop service ids i s) = requests s @ batches CHUNK (drop i ids)"
proof (induction service ids i s rule: resolve_loop.induct)
  case (1 service ids i s)
  show ?case
  proof (cases "i < length ids")
    case False
    then show ?thesis by (simp add: resolve_loop_done)
  next
    case True
    with "1.IH" [OF True] show ?thesis
      by (simp add: resolve_loop_step batches_drop_step)
  qed
qed

lemma dom_resolve_loop:
  "dom (mapping (resolve_loop service ids i s))
     = dom (mapping s) \<union> (\<Union>c\<in>set (batches CHUNK (drop i ids)). answered service c)"
proof (induction service ids i s rule: resolve_loop.induct)
  case (1 service ids i s)
  show ?case
  proof (cases "i < length ids")
    case False
    then show ?thesis by (simp add: resolve_loop_done)
  next
    case True
    with "1.IH" [OF True] show ?thesis
      by (simp add: resolve_loop_step batches_drop_step dom_lookup_batch Un_assoc)
  qed
qed

subsection \<open>Listing a set\<close>

lemma py_list_Nil [simp]: "py_list slot [] = []"
  by (simp add: py_list_def)

lemma set_py_list [simp]: "set (py_list slot s) = set s"
  by (simp add: py_list_def)

lemma distinct_py_list [simp]: "distinct (py_list slot s) = distinct s"
  by (simp add: py_list_def)

lemma length_py_list [simp]: "length (py_list slot s) = length s"
  by (simp add: py_list_def)

lemma py_list_constant: "py_list (\<lambda>x. c) s = s"
proof (induction s)
  case Nil
  then show ?case by simp
next
  case (Cons x s)
  have "insort_key (\<lambda>x. c) x ys = x # ys" for ys
    by (cases ys) simp_all
  with Cons show ?case by (simp add: py_list_def)
qed

text \<open>Every order of the elements is the listing under some slot function.\<close>

lemma place_strict:
  "distinct ys \<Longrightarrow> sorted_wrt (<) (map (\<lambda>x. length (takeWhile (\<lambda>y. y \<noteq> x) ys)) ys)"
proof (induction ys)
  case Nil
  then show ?case by simp
next
  case (Cons a ys)
  have eq: "map (\<lambda>x. length (takeWhile (\<lambda>y. y \<noteq> x) (a # ys))) ys
              = map (\<lambda>x. Suc (length (takeWhile (\<lambda>y. y \<noteq> x) ys))) ys"
    using Cons.prems by (intro map_cong) auto
  have rest: "sorted_wrt (<) (map (\<lambda>x. Suc (length (takeWhile (\<lambda>y. y \<noteq> x) ys))) ys)"
    using Cons by (simp add: sorted_wrt_map)
  have m: "map (\<lambda>x. length (takeWhile (\<lambda>y. y \<noteq> x) (a # ys))) (a # ys)
             = 0 # map (\<lambda>x. Suc (length (takeWhile (\<lambda>y. y \<noteq> x) ys))) ys"
    by (simp only: list.map eq) simp
  show ?case
    unfolding m using rest by auto
qed

lemma py_list_any_order:
  assumes "distinct ys" and "set ys = set s" and "distinct s"
  shows "\<exists>slot. py_list slot s = ys"
proof -
  let ?slot = "\<lambda>x. length (takeWhile (\<lambda>y. y \<noteq> x) ys)"
  have strict: "sorted_wrt (<) (map ?slot ys)"
    using assms(1) by (rule place_strict)
  then have sy: "sorted (map ?slot ys)" and dy: "distinct (map ?slot ys)"
    by (simp_all add: strict_sorted_iff)
  from dy have inj: "inj_on ?slot (set ys)"
    by (simp add: distinct_map)
  have "sort_key ?slot s = ys"
  proof (rule map_sorted_distinct_set_unique [of ?slot])
    show "inj_on ?slot (set (sort_key ?slot s) \<union> set ys)"
      using inj assms(2) by simp
    show "sorted (map ?slot (sort_key ?slot s))"
      by simp
    show "distinct (map ?slot (sort_key ?slot s))"
      using inj assms(2,3) by (simp add: distinct_map)
    show "sorted (map ?slot ys)" by (rule sy)
    show "distinct (map ?slot ys)" by (rule dy)
    show "set (sort_key ?slot s) = set ys"
      using assms(2) by simp
  qed
  then show ?thesis
    unfolding py_list_def by blast
qed

subsection \<open>The resolver as a whole\<close>

lemma resolve_steam_names_nonempty:
  "[] \<notin> ran (mapping (resolve_steam_names key service slot sids))"
  by (simp add: resolve_steam_names_def Let_def resolve_init_def resolve_loop_nonempty)

lemma requests_resolve_steam_names:
  "requests (resolve_steam_names key service slot sids)
     = (if key = None \<or> key = Some [] then [] else batches CHUNK (py_list slot sids))"
  by (simp add: resolve_steam_names_def Let_def resolve_init_def requests_resolve_loop)

lemma dom_resolve_steam_names:
  "dom (mapping (resolve_steam_names key service slot sids))
     = (if key = None \<or> key = Some [] then {}
        else (\<Union>c\<in>set (batches CHUNK (py_list slot sids)). answered service c))"
  by (simp add: resolve_steam_names_def Let_def resolve_init_def dom_resolve_loop)

lemma merge_players_map_add: "merge_players ps m = m ++ merge_players ps Map.empty"
proof (induction ps arbitrary: m)
  case Nil
  then show ?case by simp
next
  case (Cons x ps)
  show ?case
  proof (cases x)
    case Bad
    then show ?thesis by simp
  next
    case (Obj p)
    let ?upd = "\<lambda>m. case (steamid p, personaname p) of
                 (Some sid, Some name) \<Rightarrow> if sid \<noteq> [] \<and> name \<noteq> [] then m(sid \<mapsto> name) else m
               | _ \<Rightarrow> m"
    have upd: "?upd m = m ++ ?upd Map.empty"
      by (simp split: option.splits)
    have "merge_players (Obj p # ps) m = ?upd m ++ merge_players ps Map.empty"
      using Cons.IH [of "?upd m"] by simp
    also have "\<dots> = m ++ (?upd Map.empty ++ merge_players ps Map.empty)"
      by (subst upd) (simp only: map_add_assoc)
    also have "\<dots> = m ++ merge_players (Obj p # ps) Map.empty"
      using Cons.IH [of "?upd Map.empty"] by simp
    finally show ?thesis using Obj by simp
  qed
qed

lemma mapping_lookup_batch:
  "mapping (lookup_batch service c s) = mapping s ++ answer_map service c"
  using merge_players_map_add [of _ "mapping s"]
  by (simp add: lookup_batch_def Let_def answer_map_def split: http.splits)

lemma foldl_map_add: "foldl (++) (m ++ a) ms = m ++ foldl (++) a ms"
proof (induction ms arbitrary: a)
  case Nil
  then show ?case by simp
next
  case (Cons x ms)
  have "foldl (++) (m ++ a) (x # ms) = foldl (++) (m ++ (a ++ x)) ms"
    by (simp only: foldl_Cons map_add_assoc)
  also have "\<dots> = m ++ foldl (++) (a ++ x) ms"
    by (rule Cons.IH)
  finally show ?case by simp
qed

lemma mapping_resolve_loop:
  "mapping (resolve_loop service ids i s)
     = mapping s ++ foldl (++) Map.empty (map (answer_map service) (batches CHUNK (drop i ids)))"
proof (induction service ids i s rule: resolve_loop.induct)
  case (1 service ids i s)
  show ?case
  proof (cases "i < length ids")
    case False
    then show ?thesis by (simp add: resolve_loop_done)
  next
    case True
    let ?a = "answer_map service (take CHUNK (drop i ids))"
    let ?rest = "map (answer_map service) (batches CHUNK (drop (i + CHUNK) ids))"
    have "foldl (++) (Map.empty ++ ?a) ?rest = ?a ++ foldl (++) Map.empty ?rest"
      using foldl_map_add [of ?a Map.empty ?rest] by simp
    with "1.IH" [OF True] True show ?thesis
      by (simp add: resolve_loop_step batches_drop_step mapping_lookup_batch map_add_assoc)
  qed
qed

lemma mapping_resolve_steam_names:
  assumes "key \<noteq> None" and "key \<noteq> Some []"
  shows "mapping (resolve_steam_names key service slot sids)
     = foldl (++) Map.empty (map (answer_map service) (batches CHUNK (py_list slot sids)))"
proof (cases "sids = []")
  case True
  then show ?thesis by (simp add: resolve_steam_names_def resolve_init_def)
next
  case False
  from assms obtain k where "key = Some k" and "k \<noteq> []" by auto
  with False show ?thesis
    by (simp add: resolve_steam_names_def Let_def resolve_init_def mapping_resolve_loop)
qed

subsection \<open>The set of identifiers\<close>

lemma distinct_count_list_1: "distinct xs \<Longrightarrow> x \<in> set xs \<Longrightarrow> count_list xs x = 1"
  by (induction xs) (auto simp: count_list_0_iff)

lemma steamid_of_truthy:
  "steamid_of p =
     (if py_truthy (py_or (py_get p (ustr ''steamId'')) (py_get p (ustr ''steam_id'')))
      then py_str (py_or (py_get p (ustr ''steamId'')) (py_get p (ustr ''steam_id''))) else [])"
  by (simp add: steamid_of_def py_or_def)

lemma distinct_steam_ids: "distinct (steam_ids data)"
  by (simp add: steam_ids_def)

lemma set_steam_ids:
  "set (steam_ids data)
     = {steamid_of p |e p. e \<in> set data \<and> p \<in> set (players e) \<and> steamid_of p \<noteq> []}"
  by (auto simp: steam_ids_def steamid_of_truthy py_str_truthy_nonempty split: if_splits)

lemma requests_servers:
  "snd (servers now api key service slot)
     = (if key = None \<or> key = Some [] then []
        else batches CHUNK (py_list slot (steam_ids (fetch_server_data api))))"
proof -
  have "steam_ids [] = []" by (simp add: steam_ids_def)
  then show ?thesis
    by (auto simp: servers_def Let_def requests_resolve_steam_names resolve_init_def)
qed

lemma servers_name_map:
  "fst (servers now api key service slot) = Message no_servers_message
   \<or> (\<exists>m. [] \<notin> ran m
          \<and> fst (servers now api key service slot) = send_embed now (fetch_server_data api) m)"
proof (cases "fetch_server_data api = []")
  case True
  then show ?thesis by (simp add: servers_def)
next
  case False
  let ?r = "if steam_ids (fetch_server_data api) \<noteq> []
            then resolve_steam_names key service slot (steam_ids (fetch_server_data api))
            else resolve_init"
  have "[] \<notin> ran (mapping ?r)"
    by (simp add: resolve_steam_names_nonempty resolve_init_def)
  moreover have "fst (servers now api key service slot)
                   = send_embed now (fetch_server_data api) (mapping ?r)"
    using False by (simp add: servers_def Let_def)
  ultimately show ?thesis by blast
qed

section \<open>Claims about name selection and identity resolution\<close>

text \<open>
  Claim C5. Name selection is a total function of the record and the name map, so it
  always returns and returns the same string for the same record and map. With every name
  map the program gives it the result is non-empty: the map \<open>resolve_steam_names\<close> builds
  (which never holds an empty name), the empty map, and so the map of every run of the
  command. (For an arbitrary map the result is non-empty unless the map gives the
  record's identifier the empty name.)
\<close>

theorem choose_player_name_nonempty:
  "choose_player_name p (mapping (resolve_steam_names key service slot sids)) \<noteq> []
   \<and> choose_player_name p Map.empty \<noteq> []
   \<and> (fst (servers now api key service slot) = Message no_servers_message
      \<or> (\<exists>m. fst (servers now api key service slot) = send_embed now (fetch_server_data api) m
             \<and> (\<forall>q. choose_player_name q m \<noteq> [])))
   \<and> (steam_map (steamid_of p) \<noteq> Some [] \<longrightarrow> choose_player_name p steam_map \<noteq> [])"
proof -
  have gen: "choose_player_name q m \<noteq> []" if "m (steamid_of q) \<noteq> Some []" for m q
  proof (cases "first_name q name_keys")
    case (Some n)
    then show ?thesis
      using first_name_nonempty [OF Some] by (simp add: choose_player_name_def)
  next
    case None
    with that show ?thesis
      by (auto simp: choose_player_name_def Let_def split: option.splits)
  qed
  have ran: "choose_player_name q m \<noteq> []" if "[] \<notin> ran m" for m q
  proof (rule gen)
    from that show "m (steamid_of q) \<noteq> Some []" by (auto simp: ran_def)
  qed
  have 1: "choose_player_name p (mapping (resolve_steam_names key service slot sids)) \<noteq> []"
    by (rule ran) (rule resolve_steam_names_nonempty)
  have 2: "choose_player_name p Map.empty \<noteq> []"
    by (rule gen) simp
  have 3: "fst (servers now api key service slot) = Message no_servers_message
      \<or> (\<exists>m. fst (servers now api key service slot) = send_embed now (fetch_server_data api) m
             \<and> (\<forall>q. choose_player_name q m \<noteq> []))"
    using servers_name_map [of now api key service slot] ran by blast
  from 1 2 3 gen show ?thesis by blast
qed

theorem choose_player_name_nonempty_witness:
  "choose_player_name [ustr ''steamId'' \<mapsto> PStr (ustr ''abc'')] [ustr ''abc'' \<mapsto> ustr ''alice'']
     \<noteq> []"
  using choose_player_name_nonempty
          [of "[ustr ''steamId'' \<mapsto> PStr (ustr ''abc'')]" _ _ _ _ _ _ "[ustr ''abc'' \<mapsto> ustr ''alice'']"]
  by (simp add: steamid_of_cases py_get_def)

text \<open>
  Claim C6. In one run of the command no identifier is asked about twice. The set of
  identifiers the command collects holds the identifier of every player that carries
  one, once however many players carry it. Whatever the order in which Python lists the
  set, the listing has each identifier once; the requests issued are the batches of 100
  of the listing, which concatenate to it, each non-empty and of at most 100 identifiers,
  all but the last of exactly 100; so every identifier is in at most one request, and in
  exactly one when the lookup credential is set.
\<close>

theorem no_identifier_queried_twice:
  "set (steam_ids (fetch_server_data api))
     = {steamid_of p |e p. e \<in> set (fetch_server_data api) \<and> p \<in> set (players e)
          \<and> steamid_of p \<noteq> []}
   \<and> distinct (steam_ids (fetch_server_data api))
   \<and> (\<forall>sid\<in>set (steam_ids (fetch_server_data api)).
         count_list (steam_ids (fetch_server_data api)) sid = 1
         \<and> count_list (py_list slot (steam_ids (fetch_server_data api))) sid = 1)
   \<and> set (py_list slot (steam_ids (fetch_server_data api)))
       = set (steam_ids (fetch_server_data api))
   \<and> snd (servers now api key service slot)
       = (if key = None \<or> key = Some [] then []
          else batches 100 (py_list slot (steam_ids (fetch_server_data api))))
   \<and> concat (batches 100 (py_list slot (steam_ids (fetch_server_data api))))
       = py_list slot (steam_ids (fetch_server_data api))
   \<and> (\<forall>c\<in>set (batches 100 (py_list slot (steam_ids (fetch_server_data api)))).
         c \<noteq> [] \<and> length c \<le> 100)
   \<and> (\<forall>c\<in>set (butlast (batches 100 (py_list slot (steam_ids (fetch_server_data api))))).
         length c = 100)
   \<and> distinct (concat (snd (servers now api key service slot)))
   \<and> (\<forall>sid. length (filter (\<lambda>c. sid \<in> set c) (snd (servers now api key service slot))) \<le> 1)
   \<and> (key \<noteq> None \<and> key \<noteq> Some [] \<longrightarrow>
       (\<forall>sid\<in>set (steam_ids (fetch_server_data api)).
          length (filter (\<lambda>c. sid \<in> set c) (snd (servers now api key service slot))) = 1))"
proof -
  let ?sids = "steam_ids (fetch_server_data api)"
  let ?ids = "py_list slot ?sids"
  let ?reqs = "snd (servers now api key service slot)"
  have dsids: "distinct ?sids"
    by (rule distinct_steam_ids)
  have dids: "distinct ?ids"
    using dsids by simp
  have reqs: "?reqs = (if key = None \<or> key = Some [] then [] else batches 100 ?ids)"
    using requests_servers [of now api key service slot] by (simp add: CHUNK_def)
  have cc: "concat (batches 100 ?ids) = ?ids"
    by (simp add: concat_batches)
  have dist: "distinct (concat ?reqs)"
    using dids by (simp add: reqs cc)
  have le: "length (filter (\<lambda>c. sid \<in> set c) ?reqs) \<le> 1" for sid
  proof (cases "sid \<in> set (concat ?reqs)")
    case True
    with once_in_concat [OF dist] show ?thesis by simp
  next
    case False
    with never_in_concat [of sid ?reqs] show ?thesis by simp
  qed
  have one: "length (filter (\<lambda>c. sid \<in> set c) ?reqs) = 1"
    if "key \<noteq> None" "key \<noteq> Some []" "sid \<in> set ?sids" for sid
  proof -
    have "?reqs = batches 100 ?ids"
      by (simp only: reqs that(1,2) simp_thms if_False)
    then have "concat ?reqs = ?ids" by (simp only: cc)
    with that have "sid \<in> set (concat ?reqs)" by simp
    with once_in_concat [OF dist] show ?thesis by simp
  qed
  have cnt: "count_list ?sids sid = 1 \<and> count_list ?ids sid = 1" if "sid \<in> set ?sids" for sid
    using that dsids dids by (simp add: distinct_count_list_1)
  have bnd: "c \<noteq> [] \<and> length c \<le> 100" if "c \<in> set (batches 100 ?ids)" for c
    using batches_bounds [OF that] .
  show ?thesis
  proof (intro conjI)
    show "set ?sids
           = {steamid_of p |e p. e \<in> set (fetch_server_data api) \<and> p \<in> set (players e)
                \<and> steamid_of p \<noteq> []}"
      by (rule set_steam_ids)
    show "distinct ?sids"
      by (rule dsids)
    show "\<forall>sid\<in>set ?sids. count_list ?sids sid = 1 \<and> count_list ?ids sid = 1"
      using cnt by blast
    show "set ?ids = set ?sids"
      by simp
    show "?reqs = (if key = None \<or> key = Some [] then [] else batches 100 ?ids)"
      by (rule reqs)
    show "concat (batches 100 ?ids) = ?ids"
      by (rule cc)
    show "\<forall>c\<in>set (batches 100 ?ids). c \<noteq> [] \<and> length c \<le> 100"
      using bnd by blast
    show "\<forall>c\<in>set (butlast (batches 100 ?ids)). length c = 100"
      using batches_full by blast
    show "distinct (concat ?reqs)"
      by (rule dist)
    show "\<forall>sid. length (filter (\<lambda>c. sid \<in> set c) ?reqs) \<le> 1"
      using le by blast
    show "key \<noteq> None \<and> key \<noteq> Some [] \<longrightarrow>
         (\<forall>sid\<in>set ?sids. length (filter (\<lambda>c. sid \<in> set c) ?reqs) = 1)"
      using one by blast
  qed
qed

theorem no_identifier_queried_twice_witness:
  "steam_ids example_shared_id = [ustr ''76561198000000001'']
   \<and> snd (servers 0 (Response 200 example_shared_id) (Some (ustr ''k'')) example_service
          example_slot)
     = [[ustr ''76561198000000001'']]
   \<and> length (filter (\<lambda>c. ustr ''76561198000000001'' \<in> set c)
        (snd (servers 0 (Response 200 example_shared_id) (Some (ustr ''k'')) example_service
          example_slot))) = 1"
proof -
  let ?sid = "ustr ''76561198000000001''"
  let ?reqs = "snd (servers 0 (Response 200 example_shared_id) (Some (ustr ''k''))
                      example_service example_slot)"
  have d: "digits 76561198000000001 = ?sid"
    by (simp add: digits.simps ustr_def)
  have data: "fetch_server_data (Response 200 example_shared_id) = example_shared_id"
    by (simp add: fetch_server_data_def)
  have sids: "steam_ids example_shared_id = [?sid]"
    by (simp add: example_shared_id_def steam_ids_def py_get_def py_or_def d)
  have l: "py_list example_slot [?sid] = [?sid]"
    by (simp add: py_list_def)
  have b: "batches 100 [?sid] = [[?sid]]"
    by (simp add: batches_step)
  note t = no_identifier_queried_twice
             [of "Response 200 example_shared_id" example_slot 0 "Some (ustr ''k'')"
                 example_service]
  have k: "Some (ustr ''k'') \<noteq> None \<and> Some (ustr ''k'') \<noteq> Some []"
    by simp
  have m: "?sid \<in> set (steam_ids (fetch_server_data (Response 200 example_shared_id)))"
    by (simp add: data sids)
  from t k have "?reqs = batches 100 (py_list example_slot
                            (steam_ids (fetch_server_data (Response 200 example_shared_id))))"
    by presburger
  then have 1: "?reqs = [[?sid]]"
    by (simp only: data sids l b)
  from t k m have 2: "length (filter (\<lambda>c. ?sid \<in> set c) ?reqs) = 1"
    by blast
  from sids 1 2 show ?thesis by blast
qed

text \<open>
  Claim C7, as amended. Without a lookup credential, or without identifiers, the resolver
  returns the empty mapping and issues no request, and so does the command. Otherwise
  every batch is requested, whatever became of the earlier ones, and nothing is raised. A
  batch whose request raises or whose status is not 200 changes nothing but the list of
  requests. A batch with status 200 is merged up to the first element the merge raises
  on: the names stored before it stay, the rest of the answer is dropped. The mapping is
  what the batches give, merged in order, and its keys are exactly the identifiers named
  before a raise in the status-200 answers. When the service only answers about what it
  was asked, every identifier of a batch whose request raised or had another status stays
  unresolved.
\<close>

theorem failed_batches_are_skipped:
  "(key = None \<or> key = Some [] \<or> sids = []
      \<longrightarrow> resolve_steam_names key service slot sids = \<lparr>mapping = Map.empty, requests = []\<rparr>)
   \<and> (key = None \<or> key = Some []
      \<longrightarrow> servers now api key service slot
          = (if fetch_server_data api = [] then (Message no_servers_message, [])
             else (send_embed now (fetch_server_data api) Map.empty, [])))
   \<and> (batch_failed service c
      \<longrightarrow> lookup_batch service c s = s\<lparr>requests := requests s @ [c]\<rparr>
          \<and> answer_map service c = Map.empty)
   \<and> (service c = Response 200 body
      \<longrightarrow> lookup_batch service c s
          = s\<lparr>requests := requests s @ [c], mapping := merge_players body (mapping s)\<rparr>)
   \<and> merge_players (map Obj ps @ Bad # rest) m = merge_players (map Obj ps) m
   \<and> (key \<noteq> None \<and> key \<noteq> Some []
      \<longrightarrow> requests (resolve_steam_names key service slot sids)
            = batches 100 (py_list slot sids)
          \<and> mapping (resolve_steam_names key service slot sids)
              = foldl (++) Map.empty
                  (map (answer_map service) (batches 100 (py_list slot sids)))
          \<and> dom (mapping (resolve_steam_names key service slot sids))
              = (\<Union>c\<in>set (batches 100 (py_list slot sids)). answered service c))
   \<and> (key \<noteq> None \<and> key \<noteq> Some [] \<and> distinct sids \<and> (\<forall>c'. answered service c' \<subseteq> set c')
        \<and> c \<in> set (batches 100 (py_list slot sids)) \<and> batch_failed service c \<and> sid \<in> set c
      \<longrightarrow> mapping (resolve_steam_names key service slot sids) sid = None)"
proof (intro conjI impI)
  assume "key = None \<or> key = Some [] \<or> sids = []"
  then show "resolve_steam_names key service slot sids = \<lparr>mapping = Map.empty, requests = []\<rparr>"
    by (auto simp: resolve_steam_names_def resolve_init_def)
next
  assume "key = None \<or> key = Some []"
  then show "servers now api key service slot
          = (if fetch_server_data api = [] then (Message no_servers_message, [])
             else (send_embed now (fetch_server_data api) Map.empty, []))"
    by (auto simp: servers_def Let_def resolve_steam_names_def resolve_init_def)
next
  assume "batch_failed service c"
  then show "lookup_batch service c s = s\<lparr>requests := requests s @ [c]\<rparr>"
    by (simp add: batch_failed_def lookup_batch_def Let_def split: http.splits)
next
  assume "batch_failed service c"
  then show "answer_map service c = Map.empty"
    by (simp add: batch_failed_def answer_map_def split: http.splits)
next
  assume "service c = Response 200 body"
  then show "lookup_batch service c s
          = s\<lparr>requests := requests s @ [c], mapping := merge_players body (mapping s)\<rparr>"
    by (simp add: lookup_batch_def Let_def)
next
  show "merge_players (map Obj ps @ Bad # rest) m = merge_players (map Obj ps) m"
    by (rule merge_players_raise)
next
  assume k: "key \<noteq> None \<and> key \<noteq> Some []"
  then show "requests (resolve_steam_names key service slot sids)
               = batches 100 (py_list slot sids)"
    by (simp only: requests_resolve_steam_names CHUNK_def simp_thms if_False)
next
  assume k: "key \<noteq> None \<and> key \<noteq> Some []"
  then show "mapping (resolve_steam_names key service slot sids)
              = foldl (++) Map.empty
                  (map (answer_map service) (batches 100 (py_list slot sids)))"
    using mapping_resolve_steam_names [of key service slot sids] by (simp add: CHUNK_def)
next
  assume k: "key \<noteq> None \<and> key \<noteq> Some []"
  then show "dom (mapping (resolve_steam_names key service slot sids))
              = (\<Union>c\<in>set (batches 100 (py_list slot sids)). answered service c)"
    by (simp only: dom_resolve_steam_names CHUNK_def simp_thms if_False)
next
  assume a: "key \<noteq> None \<and> key \<noteq> Some [] \<and> distinct sids \<and> (\<forall>c'. answered service c' \<subseteq> set c')
        \<and> c \<in> set (batches 100 (py_list slot sids)) \<and> batch_failed service c \<and> sid \<in> set c"
  then have dom: "dom (mapping (resolve_steam_names key service slot sids))
              = (\<Union>c\<in>set (batches 100 (py_list slot sids)). answered service c)"
    by (simp only: dom_resolve_steam_names CHUNK_def simp_thms if_False)
  have dist: "distinct (concat (batches 100 (py_list slot sids)))"
    using a by (simp add: concat_batches)
  have none: "answered service c = {}"
    using a by (simp add: batch_failed_def answered_def split: http.splits)
  show "mapping (resolve_steam_names key service slot sids) sid = None"
  proof (rule ccontr)
    assume "mapping (resolve_steam_names key service slot sids) sid \<noteq> None"
    then have "sid \<in> dom (mapping (resolve_steam_names key service slot sids))" by auto
    with dom obtain c' where c': "c' \<in> set (batches 100 (py_list slot sids))"
        "sid \<in> answered service c'"
      by auto
    with a have in': "sid \<in> set c'" by blast
    from c' none have "c' \<noteq> c" by auto
    with dist c' a have "set c' \<inter> set c = {}"
      by (simp add: distinct_concat_iff)
    with in' a show False by blast
  qed
qed

theorem failed_batches_are_skipped_witness:
  "resolve_steam_names None example_service example_slot example_ids
     = \<lparr>mapping = Map.empty, requests = []\<rparr>
   \<and> requests (resolve_steam_names (Some (ustr ''k'')) example_service example_slot example_ids)
       = [map (\<lambda>n. [n]) [0..<100], map (\<lambda>n. [n]) [100..<150]]
   \<and> dom (mapping (resolve_steam_names (Some (ustr ''k'')) example_service example_slot
              example_ids))
       = {[100]}
   \<and> mapping (resolve_steam_names (Some (ustr ''k'')) example_service example_slot
         example_ids) [0] = None
   \<and> answer_map example_service (map (\<lambda>n. [n]) [0..<100]) = Map.empty"
proof -
  let ?f = "\<lambda>n::nat. [n]"
  let ?c1 = "map ?f [0..<100]"
  let ?c2 = "map ?f [100..<150]"
  let ?r = "resolve_steam_names (Some (ustr ''k'')) example_service example_slot example_ids"
  have l: "py_list example_slot example_ids = example_ids"
    using py_list_constant [of 0 example_ids] by (simp add: example_slot_def [abs_def])
  have b: "batches 100 (py_list example_slot example_ids) = [?c1, ?c2]"
    unfolding l by (simp add: example_ids_def batches_step take_map drop_map)
  have f1: "batch_failed example_service ?c1"
    by (auto simp: batch_failed_def example_service_def)
  have a1: "answered example_service ?c1 = {}"
    by (auto simp: answered_def example_service_def)
  have a2: "answered example_service ?c2 = {[100]}"
    by (auto simp: answered_def example_service_def valid_summary_def)
  have honest: "\<forall>c'. answered example_service c' \<subseteq> set c'"
    by (auto simp: answered_def example_service_def valid_summary_def)
  have d: "distinct example_ids"
    by (simp add: example_ids_def distinct_map inj_on_def)
  have 1: "resolve_steam_names None example_service example_slot example_ids
             = \<lparr>mapping = Map.empty, requests = []\<rparr>"
    using failed_batches_are_skipped
            [of None example_ids example_service example_slot, THEN conjunct1]
    by simp
  note t = failed_batches_are_skipped
             [of "Some (ustr ''k'')" example_ids example_service example_slot _ _ ?c1 _ _ _ _ _
                 "[0]"]
  have k: "Some (ustr ''k'') \<noteq> None \<and> Some (ustr ''k'') \<noteq> Some []"
    by simp
  note t3 = t [THEN conjunct2, THEN conjunct2, THEN conjunct1, THEN mp]
  note t6 = t [THEN conjunct2, THEN conjunct2, THEN conjunct2, THEN conjunct2, THEN conjunct2,
               THEN conjunct1, THEN mp, OF k]
  note t7 = t [THEN conjunct2, THEN conjunct2, THEN conjunct2, THEN conjunct2, THEN conjunct2,
               THEN conjunct2, THEN mp]
  have R: "requests ?r = batches 100 (py_list example_slot example_ids)"
    by (rule t6 [THEN conjunct1])
  have D: "dom (mapping ?r)
             = (\<Union>c\<in>set (batches 100 (py_list example_slot example_ids)).
                  answered example_service c)"
    by (rule t6 [THEN conjunct2, THEN conjunct2])
  have 2: "requests ?r = [?c1, ?c2]"
    by (simp only: R b)
  have 3: "dom (mapping ?r) = {[100]}"
    by (simp only: D b list.set UN_insert UN_empty a1 a2 Un_empty_left Un_empty_right)
  have c1: "?c1 \<in> set (batches 100 (py_list example_slot example_ids))"
    by (simp only: b list.set insertI1)
  have z: "[0] \<in> set ?c1"
    by simp
  have 4: "mapping ?r [0] = None"
  proof (rule t7, intro conjI)
    show "Some (ustr ''k'') \<noteq> None" and "Some (ustr ''k'') \<noteq> Some []"
      by simp_all
    show "distinct example_ids"
      by (rule d)
    show "\<forall>c'. answered example_service c' \<subseteq> set c'"
      by (rule honest)
    show "?c1 \<in> set (batches 100 (py_list example_slot example_ids))"
      by (rule c1)
    show "batch_failed example_service ?c1"
      by (rule f1)
    show "[0] \<in> set ?c1"
      by (rule z)
  qed
  have 5: "answer_map example_service ?c1 = Map.empty"
    by (rule t3 [OF f1, THEN conjunct2])
  from 1 2 3 4 5 show ?thesis by blast
qed

text \<open>
  The claim as stated fails: the one batch \<open>a\<close>, \<open>b\<close> gets a status-200 answer that names
  \<open>a\<close> and then holds an element the merge raises on. The batch has failed, the
  \<open>except\<close> clause has taken over, and \<open>a\<close> is resolved all the same.
\<close>

theorem failed_batch_resolved_counterexample:
  "batch_raises example_partial_service [ustr ''a'', ustr ''b'']
   \<and> requests (resolve_steam_names (Some (ustr ''k'')) example_partial_service example_slot
        [ustr ''a'', ustr ''b''])
     = [[ustr ''a'', ustr ''b'']]
   \<and> mapping (resolve_steam_names (Some (ustr ''k'')) example_partial_service example_slot
        [ustr ''a'', ustr ''b'']) (ustr ''a'')
     = Some (ustr ''alice'')"
proof -
  have l: "py_list example_slot [ustr ''a'', ustr ''b''] = [ustr ''a'', ustr ''b'']"
    using py_list_constant [of 0 "[ustr ''a'', ustr ''b'']"]
    by (simp add: example_slot_def [abs_def])
  have r: "resolve_steam_names (Some (ustr ''k'')) example_partial_service example_slot
             [ustr ''a'', ustr ''b'']
           = \<lparr>mapping = [ustr ''a'' \<mapsto> ustr ''alice''], requests = [[ustr ''a'', ustr ''b'']]\<rparr>"
    by (simp add: resolve_steam_names_def Let_def l resolve_init_def resolve_loop_step
                  resolve_loop_done CHUNK_def lookup_batch_def example_partial_service_def)
  have "batch_raises example_partial_service [ustr ''a'', ustr ''b'']"
    by (simp add: batch_raises_def example_partial_service_def)
  with r show ?thesis by simp
qed

section \<open>The layout\<close>

lemma length_embed_title [simp]: "length embed_title = 10"
  by (simp add: embed_title_def)

lemma length_embed_description [simp]: "length embed_description = 32"
  by (simp add: embed_description_def)

lemma pack_init_simps [simp]:
  "total_chars pack_init = 42" "servers_truncated pack_init = 0" "flds pack_init = []"
  by (simp_all add: pack_init_def)

lemma doc_size_approx_len: "doc_size e = approx_len e"
  by (simp add: doc_size_def approx_len_def sum_list_addf comp_def)

lemma approx_len_fields_size:
  "approx_len e = length (title e) + length (description e) + fields_size (efields e)"
  by (simp add: approx_len_def fields_size_def)

lemma fields_size_append [simp]: "fields_size (fs @ gs) = fields_size fs + fields_size gs"
  by (simp add: fields_size_def)

lemma fields_size_Nil [simp]: "fields_size [] = 0"
  by (simp add: fields_size_def)

lemma fields_size_single [simp]: "fields_size [f] = length (fname f) + length (fvalue f)"
  by (simp add: fields_size_def)

lemma field_value_no_players:
  "players e = [] \<Longrightarrow>
   field_value e steam_map
     = ustr ''Players: 0 '' @ [bullet] @ ustr '' version '' @ [backtick]
         @ py_str (entry_version e) @ [backtick]"
  by (simp add: field_value_def)

lemma length_field_value_no_players:
  "players e = [] \<Longrightarrow> length (field_value e steam_map) = 23 + length (py_str (entry_version e))"
  by (simp add: field_value_no_players)

lemma length_field_value_players:
  "players e \<noteq> [] \<Longrightarrow> length (field_value e steam_map) \<le> 1024"
  by (simp add: field_value_def Let_def FIELD_VALUE_MAX_def)

lemma field_value_players_shape:
  "players e \<noteq> [] \<Longrightarrow>
   \<exists>joined.
     (length joined \<le> 1024 \<and> field_value e steam_map = joined)
     \<or> (length joined > 1024
        \<and> field_value e steam_map = take 994 joined @ [newline] @ ustr ''... (truncated)''
        \<and> length (field_value e steam_map) = 1010)"
  by (auto simp: field_value_def Let_def FIELD_VALUE_MAX_def)

subsection \<open>The packing loop\<close>

lemma pack_loop_append:
  "pack_loop m (xs @ ys) s = pack_loop m ys (pack_loop m xs s)"
  by (induction xs arbitrary: s) (simp_all add: Let_def)

lemma pack_loop_snoc:
  "pack_loop m (xs @ [e]) s0 =
     (let s = pack_loop m xs s0 in
      if total_chars s + length (entry_name e) + length (field_value e m) + 10 > 6000
      then s\<lparr>servers_truncated := servers_truncated s + 1\<rparr>
      else s\<lparr>flds := flds s @ [\<lparr>fname = take 256 (entry_name e), fvalue = field_value e m\<rparr>],
             total_chars := total_chars s + length (entry_name e) + length (field_value e m)\<rparr>)"
  by (simp add: pack_loop_append Let_def EMBED_TOTAL_MAX_def)

lemma pack_loop_count:
  "length (flds (pack_loop m xs s)) + servers_truncated (pack_loop m xs s)
     = length (flds s) + servers_truncated s + length xs"
  by (induction xs arbitrary: s) (simp_all add: Let_def)

lemma pack_loop_total_bound:
  "total_chars s \<le> 5990 \<Longrightarrow> total_chars (pack_loop m xs s) \<le> 5990"
  by (induction xs arbitrary: s) (simp_all add: Let_def EMBED_TOTAL_MAX_def)

lemma pack_loop_names:
  "\<forall>f\<in>set (flds s). length (fname f) \<le> 256 \<Longrightarrow>
   \<forall>f\<in>set (flds (pack_loop m xs s)). length (fname f) \<le> 256"
proof (induction xs arbitrary: s)
  case Nil
  then show ?case by simp
next
  case (Cons e xs)
  let ?skip = "s\<lparr>servers_truncated := servers_truncated s + 1\<rparr>"
  let ?add = "s\<lparr>flds := flds s @ [\<lparr>fname = take 256 (entry_name e), fvalue = field_value e m\<rparr>],
                total_chars := total_chars s + length (entry_name e) + length (field_value e m)\<rparr>"
  have a: "\<forall>f\<in>set (flds ?skip). length (fname f) \<le> 256"
    using Cons.prems by simp
  have b: "\<forall>f\<in>set (flds ?add). length (fname f) \<le> 256"
    using Cons.prems by simp
  show ?case
    using Cons.IH [OF a] Cons.IH [OF b] by (simp add: Let_def)
qed

lemma pack_loop_spec:
  "pack_loop m xs s =
     s\<lparr>flds := flds s @ map (\<lambda>(h, b). \<lparr>fname = take 256 h, fvalue = b\<rparr>)
                          (fst (pack_spec (total_chars s) (blocks m xs))),
       servers_truncated := servers_truncated s + snd (pack_spec (total_chars s) (blocks m xs)),
       total_chars := total_chars s
          + sum_list (map (\<lambda>(h, b). length h + length b)
                          (fst (pack_spec (total_chars s) (blocks m xs))))\<rparr>"
proof (induction xs arbitrary: s)
  case Nil
  then show ?case by (simp add: blocks_def)
next
  case (Cons e xs)
  show ?case
  proof (cases "total_chars s + length (entry_name e) + length (field_value e m) + 10 > 6000")
    case True
    then show ?thesis
      by (simp add: Let_def EMBED_TOTAL_MAX_def Cons.IH blocks_def)
  next
    case False
    then show ?thesis
      by (simp add: Let_def EMBED_TOTAL_MAX_def Cons.IH blocks_def add.assoc)
  qed
qed

lemma pack_spec_length:
  "length (fst (pack_spec running bs)) + snd (pack_spec running bs) = length bs"
  by (induction running bs rule: pack_spec.induct) simp_all

lemma fields_size_emitted:
  "fields_size (map (\<lambda>(h, b). \<lparr>fname = take 256 h, fvalue = b\<rparr>) bs)
     \<le> sum_list (map (\<lambda>(h, b). length h + length b) bs)"
  by (induction bs) (auto simp: fields_size_def)

lemma efields_make_one_big_embed:
  "efields (make_one_big_embed now data m) =
     flds (pack_loop m data pack_init)
       @ (if servers_truncated (pack_loop m data pack_init) \<noteq> 0
          then [notice_field (servers_truncated (pack_loop m data pack_init))] else [])"
  by (simp add: make_one_big_embed_def Let_def)

lemma title_make_one_big_embed [simp]:
  "title (make_one_big_embed now data m) = embed_title"
  "description (make_one_big_embed now data m) = embed_description"
  "timestamp (make_one_big_embed now data m) = now"
  by (simp_all add: make_one_big_embed_def Let_def)

lemma fields_size_notice:
  "fields_size [notice_field n] = 36 + length (digits n)"
  by (simp add: notice_field_def)

section \<open>The examples\<close>

lemma example_server_sizes:
  "length (entry_name example_server) = 165"
  "length (field_value example_server m) = 1024"
  by (simp_all add: example_server_def entry_name_def length_field_value_no_players
                    entry_version_def)

lemma pack_loop_example_overflow:
  "pack_loop m example_overflow pack_init =
     \<lparr>total_chars = 5987, servers_truncated = 1,
      flds = replicate 5 \<lparr>fname = entry_name example_server,
                           fvalue = field_value example_server m\<rparr>\<rparr>"
proof -
  have r: "replicate 5 x = [x, x, x, x, x]" for x :: field
    by (simp add: numeral_eq_Suc)
  show ?thesis
    unfolding r
    by (simp add: example_overflow_def pack_init_def Let_def EMBED_TOTAL_MAX_def
                  example_server_sizes)
qed

lemma length_digits_small: "n < 10 \<Longrightarrow> length (digits n) = 1"
  by (subst digits.simps) simp

lemma efields_example_overflow:
  "efields (make_one_big_embed now example_overflow m) =
     replicate 5 \<lparr>fname = entry_name example_server, fvalue = field_value example_server m\<rparr>
       @ [notice_field 1]"
  by (simp add: efields_make_one_big_embed pack_loop_example_overflow)

lemma approx_len_example_overflow:
  "approx_len (make_one_big_embed now example_overflow m) = 6024"
  by (simp add: approx_len_fields_size efields_example_overflow fields_size_def
                example_server_sizes notice_field_def length_digits_small sum_list_replicate)

lemma pack_loop_example_server:
  "pack_loop m [example_server] pack_init =
     \<lparr>total_chars = 1231, servers_truncated = 0,
      flds = [\<lparr>fname = entry_name example_server, fvalue = field_value example_server m\<rparr>]\<rparr>"
  by (simp add: pack_init_def Let_def EMBED_TOTAL_MAX_def example_server_sizes)

lemma approx_len_example_server:
  "approx_len (make_one_big_embed now [example_server] m) = 1231"
  unfolding approx_len_fields_size efields_make_one_big_embed pack_loop_example_server
  by (simp add: example_server_sizes)

lemma example_long_name_sizes:
  "length (entry_name example_long_name) = 300"
  "length (field_value example_long_name m) = 30"
  by (simp_all add: example_long_name_def entry_name_def length_field_value_no_players
                    entry_version_def)

lemma pack_loop_example_long_name:
  "pack_loop m [example_long_name] pack_init =
     \<lparr>total_chars = 372, servers_truncated = 0,
      flds = [\<lparr>fname = take 256 (entry_name example_long_name),
               fvalue = field_value example_long_name m\<rparr>]\<rparr>"
  by (simp add: pack_init_def Let_def EMBED_TOTAL_MAX_def example_long_name_sizes)

lemma example_huge_name_sizes:
  "length (entry_name example_huge_name) = 6000"
  "length (field_value example_huge_name m) = 30"
  by (simp_all add: example_huge_name_def entry_name_def length_field_value_no_players
                    entry_version_def)

lemma pack_loop_example_huge_name:
  "pack_loop m [example_huge_name] pack_init
     = \<lparr>total_chars = 42, servers_truncated = 1, flds = []\<rparr>"
  by (simp add: pack_init_def Let_def EMBED_TOTAL_MAX_def example_huge_name_sizes)

lemma efields_example_huge_name:
  "efields (make_one_big_embed now [example_huge_name] m) = [notice_field 1]"
  unfolding efields_make_one_big_embed pack_loop_example_huge_name by simp

lemma approx_len_example_huge_name:
  "approx_len (make_one_big_embed now [example_huge_name] m) = 79"
  unfolding approx_len_fields_size efields_example_huge_name
  by (simp add: notice_field_def length_digits_small)

text \<open>
  The document for the one server with the 6000-character name is sent; it shows no
  server, and its footer says \<open>1 total (showing 1)\<close>.
\<close>

lemma footer_example_huge_name:
  "send_embed 0 [example_huge_name] Map.empty
     = Document (make_one_big_embed 0 [example_huge_name] Map.empty)
   \<and> efields (make_one_big_embed 0 [example_huge_name] Map.empty)
       = [\<lparr>fname = ustr ''Notice'', fvalue = ustr ''Truncated: 1 server(s) omitted.''\<rparr>]
   \<and> footer (make_one_big_embed 0 [example_huge_name] Map.empty)
       = ustr ''Server list '' @ [bullet] @ ustr '' 1 total (showing 1).''"
proof -
  have d1: "digits 1 = ustr ''1''"
    by (subst digits.simps, simp add: ustr_def)
  have nf: "notice_field 1
              = \<lparr>fname = ustr ''Notice'', fvalue = ustr ''Truncated: 1 server(s) omitted.''\<rparr>"
    by (simp only: notice_field_def d1) (simp add: ustr_def)
  have ef: "efields (make_one_big_embed 0 [example_huge_name] Map.empty)
       = [\<lparr>fname = ustr ''Notice'', fvalue = ustr ''Truncated: 1 server(s) omitted.''\<rparr>]"
    by (simp only: efields_example_huge_name nf)
  have sent: "send_embed 0 [example_huge_name] Map.empty
     = Document (make_one_big_embed 0 [example_huge_name] Map.empty)"
    by (simp add: send_embed_def Let_def approx_len_example_huge_name EMBED_TOTAL_MAX_def)
  have "footer (make_one_big_embed 0 [example_huge_name] Map.empty)
       = ustr ''Server list '' @ [bullet] @ ustr '' '' @ digits (length [example_huge_name])
           @ ustr '' total (showing ''
           @ digits (length (efields (make_one_big_embed 0 [example_huge_name] Map.empty)))
           @ ustr '').''"
    by (simp only: make_one_big_embed_def Let_def embed.simps)
  also have "\<dots> = ustr ''Server list '' @ [bullet] @ ustr '' 1 total (showing 1).''"
    unfolding ef by (simp only: list.size length_Cons d1 One_nat_def [symmetric] add_0)
                    (simp add: ustr_def)
  finally show ?thesis
    using ef sent by blast
qed

section \<open>Claims about the layout\<close>

text \<open>
  Claim C1. Whatever the fetched list, the credential, the lookup service and the listing
  of the set of identifiers, the command replies with the no-servers message, with the too-large
  message, or with a document whose size (title, description, field names and field
  values) is at most 6000. For every list and name map, what is sent is the document when
  its size is at most 6000 and the too-large message otherwise.
\<close>

theorem no_document_over_cap:
  "(fst (servers now api key service slot) = Document e \<longrightarrow> doc_size e \<le> 6000)
   \<and> (fst (servers now api key service slot) = Message no_servers_message
      \<or> fst (servers now api key service slot) = Message too_large_message
      \<or> (\<exists>d. fst (servers now api key service slot) = Document d \<and> doc_size d \<le> 6000))
   \<and> send_embed now data steam_map
       = (if doc_size (make_one_big_embed now data steam_map) \<le> 6000
          then Document (make_one_big_embed now data steam_map)
          else Message too_large_message)"
proof -
  have send: "send_embed n d m
       = (if doc_size (make_one_big_embed n d m) \<le> 6000
          then Document (make_one_big_embed n d m) else Message too_large_message)" for n d m
    by (simp add: send_embed_def Let_def doc_size_approx_len EMBED_TOTAL_MAX_def not_less)
  have cases: "fst (servers now api key service slot) = Message no_servers_message
      \<or> (\<exists>m. fst (servers now api key service slot)
                = send_embed now (fetch_server_data api) m)"
    by (auto simp: servers_def Let_def)
  from cases send show ?thesis
    by (auto split: if_splits)
qed

theorem no_document_over_cap_witness:
  "doc_size (make_one_big_embed 0 [example_server] Map.empty) \<le> 6000
   \<and> send_embed 0 example_overflow Map.empty = Message too_large_message"
proof -
  let ?d = "make_one_big_embed 0 [example_server] Map.empty"
  have ids: "steam_ids [example_server] = []"
    by (simp add: steam_ids_def example_server_def)
  have "send_embed 0 [example_server] Map.empty = Document ?d"
    by (simp add: send_embed_def Let_def approx_len_example_server EMBED_TOTAL_MAX_def)
  then have "fst (servers 0 (Response 200 [example_server]) None example_service example_slot)
               = Document ?d"
    by (simp add: servers_def fetch_server_data_def Let_def ids resolve_init_def)
  with no_document_over_cap
         [of 0 "Response 200 [example_server]" None example_service example_slot ?d]
  have 1: "doc_size ?d \<le> 6000" by blast
  have 2: "send_embed 0 example_overflow Map.empty = Message too_large_message"
    using no_document_over_cap [of 0 _ _ _ _ _ example_overflow Map.empty]
    by (simp add: doc_size_approx_len approx_len_example_overflow)
  from 1 2 show ?thesis by blast
qed

text \<open>
  Claim C2 at the input where the code departs from it: a server without players whose
  version string has 1002 characters gets a field text of 1025 characters, over the cap
  of 1024, and the document carries it as it is. (With players the text is within the
  cap, cut to 994 characters and the marker when the joined lines exceed 1024:
  \<open>length_field_value_players\<close>, \<open>field_value_players_shape\<close>.)
\<close>

theorem field_value_zero_players_over_cap:
  "length (field_value example_long_version Map.empty) = 1025
   \<and> efields (make_one_big_embed 0 [example_long_version] Map.empty)
       = [\<lparr>fname = ustr ''s'', fvalue = field_value example_long_version Map.empty\<rparr>]"
proof -
  have n: "entry_name example_long_version = ustr ''s''"
    by (simp add: example_long_version_def entry_name_def)
  have l: "length (field_value example_long_version Map.empty) = 1025"
    by (simp add: length_field_value_no_players example_long_version_def entry_version_def)
  have "pack_loop Map.empty [example_long_version] pack_init
          = \<lparr>total_chars = 1068, servers_truncated = 0,
             flds = [\<lparr>fname = ustr ''s'', fvalue = field_value example_long_version Map.empty\<rparr>]\<rparr>"
    by (simp add: pack_init_def Let_def EMBED_TOTAL_MAX_def n l)
  then have "efields (make_one_big_embed 0 [example_long_version] Map.empty)
       = [\<lparr>fname = ustr ''s'', fvalue = field_value example_long_version Map.empty\<rparr>]"
    unfolding efields_make_one_big_embed by simp
  with l show ?thesis by blast
qed

text \<open>
  Claim C3, as amended. The packing loop does what the specification's pass does: blocks
  in fetch order, a block skipped and counted when the running total plus its header
  length, body length and 10 would exceed 6000, the pass going on. Every server is
  either included or counted. When the count is not zero exactly one notice field with
  that count ends the document. Without the notice the document's size is at most 5990;
  the document's size is at most 6000 when nothing was omitted, and at most 5990 plus the
  size of the notice (36 and the digits of the count) otherwise.
\<close>

theorem global_packing:
  "flds (pack_loop m data pack_init)
     = map (\<lambda>(h, b). \<lparr>fname = take 256 h, fvalue = b\<rparr>) (fst (pack_spec 42 (blocks m data)))
   \<and> servers_truncated (pack_loop m data pack_init) = snd (pack_spec 42 (blocks m data))
   \<and> length (fst (pack_spec 42 (blocks m data))) + snd (pack_spec 42 (blocks m data))
       = length data
   \<and> efields (make_one_big_embed now data m)
       = flds (pack_loop m data pack_init)
           @ (if snd (pack_spec 42 (blocks m data)) \<noteq> 0
              then [\<lparr>fname = ustr ''Notice'',
                     fvalue = ustr ''Truncated: '' @ digits (snd (pack_spec 42 (blocks m data)))
                                @ ustr '' server(s) omitted.''\<rparr>]
              else [])
   \<and> 42 + fields_size (flds (pack_loop m data pack_init)) \<le> 5990
   \<and> (snd (pack_spec 42 (blocks m data)) = 0
        \<longrightarrow> doc_size (make_one_big_embed now data m) \<le> 6000)
   \<and> doc_size (make_one_big_embed now data m)
       \<le> 5990 + (if snd (pack_spec 42 (blocks m data)) \<noteq> 0
                  then 36 + length (digits (snd (pack_spec 42 (blocks m data)))) else 0)"
proof -
  let ?s = "pack_loop m data pack_init"
  let ?inc = "fst (pack_spec 42 (blocks m data))"
  let ?om = "snd (pack_spec 42 (blocks m data))"
  have s: "?s = \<lparr>total_chars = 42 + sum_list (map (\<lambda>(h, b). length h + length b) ?inc),
                servers_truncated = ?om,
                flds = map (\<lambda>(h, b). \<lparr>fname = take 256 h, fvalue = b\<rparr>) ?inc\<rparr>"
    using pack_loop_spec [of m data pack_init] by (simp add: pack_init_def)
  have f: "flds ?s = map (\<lambda>(h, b). \<lparr>fname = take 256 h, fvalue = b\<rparr>) ?inc"
    by (subst s) simp
  have t: "servers_truncated ?s = ?om"
    by (subst s) simp
  have tc: "total_chars ?s = 42 + sum_list (map (\<lambda>(h, b). length h + length b) ?inc)"
    by (subst s) simp
  have len: "length ?inc + ?om = length data"
    using pack_spec_length [of 42 "blocks m data"] by (simp add: blocks_def)
  have ef: "efields (make_one_big_embed now data m)
       = flds ?s @ (if ?om \<noteq> 0
              then [\<lparr>fname = ustr ''Notice'',
                     fvalue = ustr ''Truncated: '' @ digits ?om @ ustr '' server(s) omitted.''\<rparr>]
              else [])"
    unfolding efields_make_one_big_embed t by (simp add: notice_field_def)
  have "total_chars ?s \<le> 5990"
    by (rule pack_loop_total_bound) simp
  with tc fields_size_emitted [of ?inc] have b: "42 + fields_size (flds ?s) \<le> 5990"
    unfolding f by linarith
  have ds: "doc_size (make_one_big_embed now data m)
       = 42 + fields_size (flds ?s) + (if ?om \<noteq> 0 then 36 + length (digits ?om) else 0)"
    unfolding doc_size_approx_len approx_len_fields_size ef by simp
  from f t len ef b ds show ?thesis
    by (simp only: simp_thms if_False) auto
qed

theorem global_packing_witness:
  "doc_size (make_one_big_embed 0 [example_server] Map.empty) \<le> 6000"
proof -
  have "pack_loop Map.empty [example_server] pack_init
          = \<lparr>total_chars = 1231, servers_truncated = 0,
             flds = [\<lparr>fname = entry_name example_server,
                      fvalue = field_value example_server Map.empty\<rparr>]\<rparr>"
    by (rule pack_loop_example_server)
  then have "servers_truncated (pack_loop Map.empty [example_server] pack_init) = 0"
    by simp
  with global_packing [of Map.empty "[example_server]" 0] show ?thesis
    by simp
qed

text \<open>
  The claim as stated fails: six servers of 1189 characters each (name and field text).
  Five are included, the running total is 5987, the sixth is omitted, and the notice
  takes the document to 6024 characters.
\<close>

theorem global_packing_over_cap_counterexample:
  "\<not> doc_size (make_one_big_embed 0 example_overflow Map.empty) \<le> 6000"
  by (simp add: doc_size_approx_len approx_len_example_overflow)

text \<open>
  Claim C8, as amended. The document carries the clock reading of the run as its
  timestamp. Two runs on the same list and the same name map give documents that agree
  in title, description, fields and footer, and differ at most in the timestamp; they are
  the same document when the clock reads the same.
\<close>

theorem packing_repeatable_up_to_timestamp:
  "make_one_big_embed now1 data m = (make_one_big_embed now2 data m)\<lparr>timestamp := now1\<rparr>
   \<and> title (make_one_big_embed now1 data m) = title (make_one_big_embed now2 data m)
   \<and> description (make_one_big_embed now1 data m) = description (make_one_big_embed now2 data m)
   \<and> efields (make_one_big_embed now1 data m) = efields (make_one_big_embed now2 data m)
   \<and> footer (make_one_big_embed now1 data m) = footer (make_one_big_embed now2 data m)
   \<and> timestamp (make_one_big_embed now1 data m) = now1"
  by (simp add: make_one_big_embed_def Let_def)

text \<open>
  The claim as stated fails: two runs on the empty list and the empty map, at clock
  readings 0 and 1, give different documents.
\<close>

theorem packing_timestamp_counterexample:
  "make_one_big_embed 0 [] Map.empty \<noteq> make_one_big_embed 1 [] Map.empty"
proof
  assume "make_one_big_embed 0 [] Map.empty = make_one_big_embed 1 [] Map.empty"
  then have "timestamp (make_one_big_embed 0 [] Map.empty)
               = timestamp (make_one_big_embed 1 [] Map.empty)"
    by simp
  then show False by simp
qed

text \<open>
  Claim C9 at the input where the code departs from it: of six servers five are included
  and one is omitted; the document has the five server fields and the notice, and the
  footer says \<open>6 total (showing 6)\<close>: the notice is counted as a server shown.
\<close>

theorem footer_counts_notice:
  "efields (make_one_big_embed 0 example_overflow Map.empty)
     = replicate 5 \<lparr>fname = replicate 165 97,
                     fvalue = field_value example_server Map.empty\<rparr>
         @ [\<lparr>fname = ustr ''Notice'', fvalue = ustr ''Truncated: 1 server(s) omitted.''\<rparr>]
   \<and> footer (make_one_big_embed 0 example_overflow Map.empty)
       = ustr ''Server list '' @ [bullet] @ ustr '' 6 total (showing 6).''"
proof -
  have n: "entry_name example_server = replicate 165 97"
    by (simp add: example_server_def entry_name_def)
  have d1: "digits 1 = ustr ''1''" and d6: "digits 6 = ustr ''6''"
    by (subst digits.simps, simp add: ustr_def)+
  have nf: "notice_field 1
              = \<lparr>fname = ustr ''Notice'', fvalue = ustr ''Truncated: 1 server(s) omitted.''\<rparr>"
    by (simp only: notice_field_def d1) (simp add: ustr_def)
  have ef: "efields (make_one_big_embed 0 example_overflow Map.empty)
     = replicate 5 \<lparr>fname = replicate 165 97,
                     fvalue = field_value example_server Map.empty\<rparr>
         @ [\<lparr>fname = ustr ''Notice'', fvalue = ustr ''Truncated: 1 server(s) omitted.''\<rparr>]"
    by (simp only: efields_example_overflow n nf)
  have len: "length example_overflow = 6"
    by (simp add: example_overflow_def)
  have "footer (make_one_big_embed 0 example_overflow Map.empty)
       = ustr ''Server list '' @ [bullet] @ ustr '' '' @ digits (length example_overflow)
           @ ustr '' total (showing ''
           @ digits (length (efields (make_one_big_embed 0 example_overflow Map.empty)))
           @ ustr '').''"
    by (simp add: make_one_big_embed_def Let_def)
  also have "\<dots> = ustr ''Server list '' @ [bullet] @ ustr '' 6 total (showing 6).''"
    unfolding ef len by (simp add: d6) (simp add: ustr_def)
  finally show ?thesis
    using ef by blast
qed

text \<open>
  Claim C10, as amended. Every field of the document has a name of at most 256
  characters: a server's field carries the first 256 characters of its name. The capacity
  check and the running total take the whole name: each step of the loop tests and adds
  the length of the untruncated name, so the running total is 42 plus the untruncated
  sizes of the included blocks, and it is at least the size of the title, the description
  and the server fields of the document. The notice field is not in the running total:
  the document's size is that of the title, the description and the server fields, plus
  the size of the notice (36 and the digits of the count) when a server was omitted; it
  is at most the running total when no server was omitted, and at most the running total
  plus the size of the notice otherwise.
\<close>

theorem field_names_truncated:
  "(\<forall>f\<in>set (efields (make_one_big_embed now data m)). length (fname f) \<le> 256)
   \<and> pack_loop m (xs @ [e]) pack_init =
       (let s = pack_loop m xs pack_init in
        if total_chars s + length (entry_name e) + length (field_value e m) + 10 > 6000
        then s\<lparr>servers_truncated := servers_truncated s + 1\<rparr>
        else s\<lparr>flds := flds s @ [\<lparr>fname = take 256 (entry_name e), fvalue = field_value e m\<rparr>],
               total_chars := total_chars s + length (entry_name e) + length (field_value e m)\<rparr>)
   \<and> flds (pack_loop m data pack_init)
       = map (\<lambda>(h, b). \<lparr>fname = take 256 h, fvalue = b\<rparr>) (fst (pack_spec 42 (blocks m data)))
   \<and> total_chars (pack_loop m data pack_init)
       = 42 + sum_list (map (\<lambda>(h, b). length h + length b) (fst (pack_spec 42 (blocks m data))))
   \<and> 42 + fields_size (flds (pack_loop m data pack_init))
       \<le> total_chars (pack_loop m data pack_init)
   \<and> doc_size (make_one_big_embed now data m)
       = 42 + fields_size (flds (pack_loop m data pack_init))
           + (if servers_truncated (pack_loop m data pack_init) \<noteq> 0
              then 36 + length (digits (servers_truncated (pack_loop m data pack_init)))
              else 0)
   \<and> (servers_truncated (pack_loop m data pack_init) = 0
        \<longrightarrow> doc_size (make_one_big_embed now data m) \<le> total_chars (pack_loop m data pack_init))
   \<and> doc_size (make_one_big_embed now data m)
       \<le> total_chars (pack_loop m data pack_init)
           + (if servers_truncated (pack_loop m data pack_init) \<noteq> 0
              then 36 + length (digits (servers_truncated (pack_loop m data pack_init)))
              else 0)"
proof -
  let ?s = "pack_loop m data pack_init"
  let ?inc = "fst (pack_spec 42 (blocks m data))"
  have s: "?s = \<lparr>total_chars = 42 + sum_list (map (\<lambda>(h, b). length h + length b) ?inc),
                servers_truncated = snd (pack_spec 42 (blocks m data)),
                flds = map (\<lambda>(h, b). \<lparr>fname = take 256 h, fvalue = b\<rparr>) ?inc\<rparr>"
    using pack_loop_spec [of m data pack_init] by (simp add: pack_init_def)
  have f: "flds ?s = map (\<lambda>(h, b). \<lparr>fname = take 256 h, fvalue = b\<rparr>) ?inc"
    by (subst s) simp
  have tc: "total_chars ?s = 42 + sum_list (map (\<lambda>(h, b). length h + length b) ?inc)"
    by (subst s) simp
  have le: "42 + fields_size (flds ?s) \<le> total_chars ?s"
    unfolding f tc using fields_size_emitted [of ?inc] by simp
  have "\<forall>f\<in>set (flds ?s). length (fname f) \<le> 256"
    by (rule pack_loop_names) simp
  then have names: "\<forall>f\<in>set (efields (make_one_big_embed now data m)). length (fname f) \<le> 256"
    unfolding efields_make_one_big_embed by (auto simp: notice_field_def)
  have ds: "doc_size (make_one_big_embed now data m)
       = 42 + fields_size (flds ?s)
           + (if servers_truncated ?s \<noteq> 0 then 36 + length (digits (servers_truncated ?s))
              else 0)"
    unfolding doc_size_approx_len approx_len_fields_size efields_make_one_big_embed
    by (simp add: notice_field_def)
  have z: "servers_truncated ?s = 0 \<longrightarrow> doc_size (make_one_big_embed now data m) \<le> total_chars ?s"
    using ds le by simp
  have up: "doc_size (make_one_big_embed now data m)
       \<le> total_chars ?s
           + (if servers_truncated ?s \<noteq> 0 then 36 + length (digits (servers_truncated ?s))
              else 0)"
    using ds le by simp
  from names pack_loop_snoc [of m xs e pack_init] f tc le ds z up show ?thesis
    by (intro conjI)
qed

theorem field_names_truncated_witness:
  "length (fname (hd (efields (make_one_big_embed 0 [example_long_name] Map.empty)))) \<le> 256
   \<and> efields (make_one_big_embed 0 [example_long_name] Map.empty)
       = [\<lparr>fname = replicate 256 97, fvalue = field_value example_long_name Map.empty\<rparr>]
   \<and> total_chars (pack_loop Map.empty [example_long_name] pack_init) = 372
   \<and> 42 + fields_size (flds (pack_loop Map.empty [example_long_name] pack_init)) = 328
   \<and> doc_size (make_one_big_embed 0 [example_long_name] Map.empty) \<le> 372"
proof -
  let ?d = "make_one_big_embed 0 [example_long_name] Map.empty"
  let ?f = "\<lparr>fname = replicate 256 97, fvalue = field_value example_long_name Map.empty\<rparr>"
  have n: "take 256 (entry_name example_long_name) = replicate 256 97"
    by (simp add: example_long_name_def entry_name_def)
  have p: "pack_loop Map.empty [example_long_name] pack_init
             = \<lparr>total_chars = 372, servers_truncated = 0, flds = [?f]\<rparr>"
    by (simp only: pack_loop_example_long_name n)
  have ef: "efields ?d = [?f]"
    unfolding efields_make_one_big_embed p by simp
  note t = field_names_truncated [of 0 "[example_long_name]" Map.empty]
  have "hd (efields ?d) \<in> set (efields ?d)"
    using ef by simp
  with t [THEN conjunct1]
  have 1: "length (fname (hd (efields ?d))) \<le> 256"
    by blast
  have 3: "total_chars (pack_loop Map.empty [example_long_name] pack_init) = 372"
    by (simp only: p) simp
  have 4: "42 + fields_size (flds (pack_loop Map.empty [example_long_name] pack_init)) = 328"
    by (simp only: p) (simp add: example_long_name_sizes)
  have "servers_truncated (pack_loop Map.empty [example_long_name] pack_init) = 0"
    by (simp only: p) simp
  with t [THEN conjunct2, THEN conjunct2, THEN conjunct2, THEN conjunct2, THEN conjunct2,
          THEN conjunct2, THEN conjunct1]
  have "doc_size ?d \<le> total_chars (pack_loop Map.empty [example_long_name] pack_init)"
    by (rule mp)
  with 3 have 5: "doc_size ?d \<le> 372"
    by (simp only:)
  from 1 ef 3 4 5 show ?thesis by blast
qed

text \<open>
  The claim as stated fails: for the one server with the 6000-character name the server
  is omitted, the running total stays 42, and the document, which is sent, has 79
  characters: the running total under-counts it by the notice.
\<close>

theorem running_total_below_document_counterexample:
  "\<not> doc_size (make_one_big_embed 0 [example_huge_name] Map.empty)
       \<le> total_chars (pack_loop Map.empty [example_huge_name] pack_init)
   \<and> send_embed 0 [example_huge_name] Map.empty
       = Document (make_one_big_embed 0 [example_huge_name] Map.empty)"
proof -
  have a: "doc_size (make_one_big_embed 0 [example_huge_name] Map.empty) = 79"
    by (simp only: doc_size_approx_len approx_len_example_huge_name)
  have b: "total_chars (pack_loop Map.empty [example_huge_name] pack_init) = 42"
    by (simp only: pack_loop_example_huge_name) simp
  have c: "send_embed 0 [example_huge_name] Map.empty
             = Document (make_one_big_embed 0 [example_huge_name] Map.empty)"
    by (simp add: send_embed_def Let_def approx_len_example_huge_name EMBED_TOTAL_MAX_def)
  from a b c show ?thesis by simp
qed

end
